theory Spec2Isabelle
  imports Complex_Main "HOL-Library.Sublist"
begin

section \<open>Scenario records\<close>

text \<open>
  A BDD scenario is a Python dict with the optional keys \<^verbatim>\<open>given\<close>, \<^verbatim>\<open>when\<close> and
  \<^verbatim>\<open>then\<close>, each holding a text when it is present; an absent key is \<open>None\<close>. Texts are
  strings of 8-bit characters, read as the code points 0 to 255.
\<close>

record scenario =
  s_given :: "string option"
  s_when :: "string option"
  s_then :: "string option"

text \<open>\<^verbatim>\<open>f.get(key, '')\<close>: the field, or the empty text when the key is absent.\<close>

definition get_or_empty :: "string option \<Rightarrow> string" where
  "get_or_empty v = (case v of None \<Rightarrow> [] | Some t \<Rightarrow> t)"

section \<open>Approach 3: cosine similarity with the contrast check\<close>

subsection \<open>The contrast detector\<close>

text \<open>
  \<^verbatim>\<open>str.lower()\<close>: among the code points 0 to 255 it changes the letters A to Z and the
  accented capitals 192 to 222 (but not the sign 215), each to the code point 32 higher.
\<close>

definition lower_char :: "char \<Rightarrow> char" where
  "lower_char c =
     (let n = (of_char c :: nat)
      in if (65 \<le> n \<and> n \<le> 90) \<or> (192 \<le> n \<and> n \<le> 222 \<and> n \<noteq> 215) then char_of (n + 32) else c)"

definition lower :: "string \<Rightarrow> string" where
  "lower t = map lower_char t"

text \<open>\<^verbatim>\<open>a in t\<close> on strings: \<open>a\<close> occurs in \<open>t\<close> as a contiguous run.\<close>

fun py_in :: "string \<Rightarrow> string \<Rightarrow> bool" where
  "py_in a [] = (a = [])"
| "py_in a (c # cs) = (prefix a (c # cs) \<or> py_in a cs)"

definition contrast_pairs :: "(string \<times> string) list" where
  "contrast_pairs =
     [(''success'', ''error''), (''approve'', ''reject''),
      (''completed'', ''failed''), (''allow'', ''deny''),
      (''green'', ''red''), (''enabled'', ''disabled''),
      (''true'', ''false''), (''valid'', ''invalid''),
      (''accepted'', ''rejected''), (''active'', ''inactive''),
      (''pass'', ''fail''), (''positive'', ''negative''),
      (''granted'', ''denied''), (''authenticated'', ''unauthorized'')]"

text \<open>The \<^verbatim>\<open>for a, b in contrast_pairs\<close> loop, returning at the first matching pair.\<close>

fun contrast_loop :: "(string \<times> string) list \<Rightarrow> string \<Rightarrow> string \<Rightarrow> bool" where
  "contrast_loop [] t1 t2 = False"
| "contrast_loop ((a, b) # ps) t1 t2 =
     (if (py_in a t1 \<and> py_in b t2) \<or> (py_in b t1 \<and> py_in a t2) then True
      else contrast_loop ps t1 t2)"

definition has_contrast :: "string \<Rightarrow> string \<Rightarrow> bool" where
  "has_contrast text1 text2 = contrast_loop contrast_pairs (lower text1) (lower text2)"

text \<open>The text \<^verbatim>\<open>f"{whens[i]} {thens[i]}"\<close> handed to the contrast check.\<close>

definition when_then :: "scenario \<Rightarrow> string" where
  "when_then f = get_or_empty (s_when f) @ '' '' @ get_or_empty (s_then f)"

subsection \<open>The reduction loop\<close>

text \<open>
  The similarity matrix is computed by an external embedding model from the rendered
  scenario texts; the reducer only reads its entries, so it is a parameter \<open>sim\<close>
  (\<open>sim i j\<close> is \<^verbatim>\<open>sim_matrix[i, j]\<close>). Scores and the threshold are compared as real
  numbers. The state of the loop holds the list variable \<^verbatim>\<open>features\<close>, as the caller sees it
  too, and the three local variables \<^verbatim>\<open>seen\<close>, \<^verbatim>\<open>unique_indices\<close> and \<^verbatim>\<open>duplicates\<close>. The report
  printed and saved after the loop reads a copy of \<^verbatim>\<open>duplicates\<close> sorted by score and
  changes neither the records in it nor the returned list.
\<close>

record dedup_state =
  features_var :: "scenario list"
  seen :: "nat set"
  unique_indices :: "nat list"
  duplicates :: "(nat \<times> nat \<times> real) list"

definition init_state :: "scenario list \<Rightarrow> dedup_state" where
  "init_state features =
     \<lparr>features_var = features, seen = {}, unique_indices = [], duplicates = []\<rparr>"

text \<open>
  The test of the inner \<^verbatim>\<open>if\<close>: similar enough, and no contrast. The lists \<^verbatim>\<open>whens\<close> and
  \<^verbatim>\<open>thens\<close> are taken from the argument before the loop starts, so the test reads the
  argument.
\<close>

definition dup_pair :: "scenario list \<Rightarrow> (nat \<Rightarrow> nat \<Rightarrow> real) \<Rightarrow> real \<Rightarrow> nat \<Rightarrow> nat \<Rightarrow> bool" where
  "dup_pair features sim threshold i j =
     (sim i j > threshold \<and>
      \<not> has_contrast (when_then (features ! i)) (when_then (features ! j)))"

text \<open>One iteration of the inner loop \<^verbatim>\<open>for j in range(i + 1, len(features))\<close>.\<close>

definition inner_step ::
  "scenario list \<Rightarrow> (nat \<Rightarrow> nat \<Rightarrow> real) \<Rightarrow> real \<Rightarrow> nat \<Rightarrow> nat \<Rightarrow> dedup_state \<Rightarrow> dedup_state" where
  "inner_step features sim threshold i j st =
     (if dup_pair features sim threshold i j
      then st\<lparr>seen := insert j (seen st), duplicates := duplicates st @ [(i, j, sim i j)]\<rparr>
      else st)"

text \<open>
  One iteration of the outer loop \<^verbatim>\<open>for i in range(len(features))\<close>; the bound of the inner
  loop is the length of \<^verbatim>\<open>features\<close> at that moment.
\<close>

definition outer_step ::
  "scenario list \<Rightarrow> (nat \<Rightarrow> nat \<Rightarrow> real) \<Rightarrow> real \<Rightarrow> nat \<Rightarrow> dedup_state \<Rightarrow> dedup_state" where
  "outer_step features sim threshold i st =
     (if i \<in> seen st then st
      else (let st' = fold (inner_step features sim threshold i) [Suc i..<length (features_var st)] st
            in st'\<lparr>unique_indices := unique_indices st' @ [i]\<rparr>))"

text \<open>The state after the first \<open>k\<close> iterations of the outer loop.\<close>

definition scan :: "scenario list \<Rightarrow> (nat \<Rightarrow> nat \<Rightarrow> real) \<Rightarrow> real \<Rightarrow> nat \<Rightarrow> dedup_state" where
  "scan features sim threshold k =
     fold (outer_step features sim threshold) [0..<k] (init_state features)"

definition dedup_loop :: "scenario list \<Rightarrow> (nat \<Rightarrow> nat \<Rightarrow> real) \<Rightarrow> real \<Rightarrow> dedup_state" where
  "dedup_loop features sim threshold = scan features sim threshold (length features)"

text \<open>\<^verbatim>\<open>removed_count = len(features) - len(unique_indices)\<close>, as printed.\<close>

definition removed_count :: "scenario list \<Rightarrow> (nat \<Rightarrow> nat \<Rightarrow> real) \<Rightarrow> real \<Rightarrow> nat" where
  "removed_count features sim threshold =
     length features - length (unique_indices (dedup_loop features sim threshold))"

text \<open>
  The reducer. Before the loop it encodes the texts and calls \<^verbatim>\<open>cosine_similarity\<close> on the
  embeddings, which raises ValueError when there is no text at all; otherwise it runs the
  loop and returns \<^verbatim>\<open>[features[i] for i in unique_indices]\<close>, read from the list variable
  as the loop leaves it.
\<close>

datatype embedding_error = No_samples

definition remove_duplicates_cosine_90 ::
  "scenario list \<Rightarrow> (nat \<Rightarrow> nat \<Rightarrow> real) \<Rightarrow> real \<Rightarrow> embedding_error + scenario list" where
  "remove_duplicates_cosine_90 features sim threshold =
     (if features = [] then Inl No_samples
      else (let st = dedup_loop features sim threshold
            in Inr (map (\<lambda>i. features_var st ! i) (unique_indices st))))"

section \<open>Approach 2: cosine similarity with natural language inference\<close>

subsection \<open>Step extraction\<close>

text \<open>\<^verbatim>\<open>feature.get(key)\<close> for the keys of a scenario.\<close>

definition get_field :: "scenario \<Rightarrow> string \<Rightarrow> string option" where
  "get_field feature key =
     (if key = ''given'' then s_given feature
      else if key = ''when'' then s_when feature
      else if key = ''then'' then s_then feature
      else None)"

text \<open>
  \<^verbatim>\<open>str.capitalize()\<close>: first character in upper case, the rest in lower case. The source
  applies it to the three keys only, which are plain letters a to z.
\<close>

definition upper_char :: "char \<Rightarrow> char" where
  "upper_char c =
     (let n = (of_char c :: nat) in if 97 \<le> n \<and> n \<le> 122 then char_of (n - 32) else c)"

fun capitalize :: "string \<Rightarrow> string" where
  "capitalize [] = []"
| "capitalize (c # cs) = upper_char c # lower cs"

text \<open>
  The body of \<^verbatim>\<open>for key in ["given", "when", "then"]\<close>: the test \<^verbatim>\<open>if text:\<close> holds for
  every text that is present and not empty.
\<close>

definition key_step :: "scenario \<Rightarrow> string \<Rightarrow> string list \<Rightarrow> string list" where
  "key_step feature key bdd_steps =
     (case get_field feature key of
        None \<Rightarrow> bdd_steps
      | Some text \<Rightarrow>
          if text \<noteq> [] then bdd_steps @ [capitalize key @ '': '' @ text] else bdd_steps)"

definition feature_step :: "scenario \<Rightarrow> string list \<Rightarrow> string list" where
  "feature_step feature bdd_steps =
     fold (key_step feature) [''given'', ''when'', ''then''] bdd_steps"

definition extract_steps :: "scenario list \<Rightarrow> string list" where
  "extract_steps bdd_features = fold feature_step bdd_features []"

text \<open>
  The step extractor in the words of the specification: one unit per field that is not
  skipped, scenarios in input order and Given, When, Then within a scenario. The test
  \<open>skip\<close> says which present fields are skipped; the specification skips every field that
  is empty or consists of whitespace only.
\<close>

text \<open>
  The whitespace of \<^verbatim>\<open>str.strip()\<close> and \<^verbatim>\<open>str.isspace()\<close> among the code points 0 to 255:
  9 to 13, 28 to 32, 133 (next line) and 160 (no-break space).
\<close>

definition is_space :: "char \<Rightarrow> bool" where
  "is_space c =
     (let n = (of_char c :: nat)
      in (9 \<le> n \<and> n \<le> 13) \<or> (28 \<le> n \<and> n \<le> 32) \<or> n = 133 \<or> n = 160)"

definition is_blank :: "string \<Rightarrow> bool" where
  "is_blank t = list_all is_space t"

definition spec_unit :: "(string \<Rightarrow> bool) \<Rightarrow> string \<Rightarrow> string option \<Rightarrow> string list" where
  "spec_unit skip role field =
     (case field of None \<Rightarrow> [] | Some text \<Rightarrow> if skip text then [] else [role @ '': '' @ text])"

definition spec_step_units :: "(string \<Rightarrow> bool) \<Rightarrow> scenario list \<Rightarrow> string list" where
  "spec_step_units skip records =
     concat (map (\<lambda>r. spec_unit skip ''Given'' (s_given r) @
                      spec_unit skip ''When'' (s_when r) @
                      spec_unit skip ''Then'' (s_then r)) records)"

subsection \<open>The pairwise analysis\<close>

text \<open>\<^verbatim>\<open>itertools.combinations(bdd_steps, 2)\<close>: the pairs of positions, in lexicographic order.\<close>

fun combinations2 :: "'a list \<Rightarrow> ('a \<times> 'a) list" where
  "combinations2 [] = []"
| "combinations2 (x # xs) = map (Pair x) xs @ combinations2 xs"

text \<open>\<^verbatim>\<open>list.index\<close>: the first position of the value; \<open>None\<close> where Python raises ValueError.\<close>

fun py_index :: "'a list \<Rightarrow> 'a \<Rightarrow> nat option" where
  "py_index [] x = None"
| "py_index (y # ys) x = (if y = x then Some 0 else map_option Suc (py_index ys x))"

text \<open>
  The external services of the analysis: the cosine matrix of the step embeddings, the NLI
  classifier (label and score for an input text, \<open>None\<close> when the call raises) and
  Python's \<^verbatim>\<open>round\<close> to a number of decimal places.
\<close>

record nli_services =
  cosine_matrix :: "nat \<Rightarrow> nat \<Rightarrow> real"
  nli_model :: "string \<Rightarrow> (string \<times> real) option"
  py_round :: "real \<Rightarrow> nat \<Rightarrow> real"

datatype decision = Likely_Duplicate | Contradictory | Similar_but_Unclear | Not_Similar

datatype analysis_error = ValueError | ClassifierError

record result_row =
  step_1 :: string
  step_2 :: string
  similarity :: real
  nli_label :: string
  confidence :: real
  row_decision :: decision

text \<open>The state of the loop over the pairs: the rows so far and the classifier inputs so far.\<close>

record analysis_state =
  results :: "result_row list"
  nli_calls :: "string list"

text \<open>
  The gate \<^verbatim>\<open>if sim_score > 0.6\<close>: the classifier's answer and the call log extended by
  its input, or the default \<^verbatim>\<open>"NEUTRAL", 1.0\<close> and the call log as it was.
\<close>

definition relation_gate ::
  "nli_services \<Rightarrow> real \<Rightarrow> string \<Rightarrow> string \<Rightarrow> string list \<Rightarrow> (string \<times> real) option \<times> string list" where
  "relation_gate sv sim_score s1 s2 calls =
     (if sim_score > 6 / 10
      then (let nli_input = s1 @ '' </s> '' @ s2 in (nli_model sv nli_input, calls @ [nli_input]))
      else (Some (''NEUTRAL'', 1), calls))"

text \<open>The decision logic of lines 268 to 277.\<close>

definition decision_logic :: "real \<Rightarrow> string \<Rightarrow> decision" where
  "decision_logic sim_score label =
     (if sim_score > 8 / 10 then
        (if label = ''ENTAILMENT'' then Likely_Duplicate
         else if label = ''CONTRADICTION'' then Contradictory
         else Similar_but_Unclear)
      else Not_Similar)"

text \<open>The similarity the loop reads for a pair: the matrix at the first positions of its texts.\<close>

definition pair_similarity :: "nli_services \<Rightarrow> string list \<Rightarrow> string \<times> string \<Rightarrow> real option" where
  "pair_similarity sv bdd_steps p =
     (case py_index bdd_steps (fst p) of
        None \<Rightarrow> None
      | Some idx1 \<Rightarrow>
          (case py_index bdd_steps (snd p) of
             None \<Rightarrow> None
           | Some idx2 \<Rightarrow> Some (cosine_matrix sv idx1 idx2)))"

text \<open>The body of the loop over the pairs.\<close>

definition analyze_pair ::
  "nli_services \<Rightarrow> string list \<Rightarrow> string \<times> string \<Rightarrow> analysis_state \<Rightarrow> analysis_error + analysis_state" where
  "analyze_pair sv bdd_steps p st =
     (case pair_similarity sv bdd_steps p of
        None \<Rightarrow> Inl ValueError
      | Some sim_score \<Rightarrow>
          (case relation_gate sv sim_score (fst p) (snd p) (nli_calls st) of
             (None, calls) \<Rightarrow> Inl ClassifierError
           | (Some (label, conf), calls) \<Rightarrow>
               Inr \<lparr>results = results st @
                      [\<lparr>step_1 = fst p, step_2 = snd p,
                        similarity = py_round sv sim_score 4,
                        nli_label = label,
                        confidence = py_round sv (conf * 100) 2,
                        row_decision = decision_logic sim_score label\<rparr>],
                    nli_calls = calls\<rparr>))"

fun pairs_loop ::
  "nli_services \<Rightarrow> string list \<Rightarrow> (string \<times> string) list \<Rightarrow> analysis_state \<Rightarrow> analysis_error + analysis_state" where
  "pairs_loop sv bdd_steps [] st = Inr st"
| "pairs_loop sv bdd_steps (p # ps) st =
     (case analyze_pair sv bdd_steps p st of
        Inl e \<Rightarrow> Inl e
      | Inr st' \<Rightarrow> pairs_loop sv bdd_steps ps st')"

text \<open>
  The analysis: the rows of the result table with the extracted steps; the call log is
  kept beside them to say which pairs reached the classifier.
\<close>

definition analyze_bdd_steps_with_nli ::
  "nli_services \<Rightarrow> scenario list \<Rightarrow> analysis_error + (analysis_state \<times> string list)" where
  "analyze_bdd_steps_with_nli sv bdd_features =
     (let bdd_steps = extract_steps bdd_features;
          pairs = combinations2 bdd_steps
      in case pairs_loop sv bdd_steps pairs \<lparr>results = [], nli_calls = []\<rparr> of
           Inl e \<Rightarrow> Inl e
         | Inr st \<Rightarrow> Inr (st, bdd_steps))"

section \<open>Approach 4: batches judged by a language model\<close>

subsection \<open>Python values\<close>

text \<open>
  The values that JSON decoding produces. A dict is an association list, read at the first
  entry of a key.
\<close>

datatype pyval =
    PNone
  | PBool bool
  | PNum real
  | PStr string
  | PList "pyval list"
  | PDict "(string \<times> pyval) list"

text \<open>Truth value testing, as in \<^verbatim>\<open>if parsed:\<close> and \<^verbatim>\<open>if removed\<close>.\<close>

fun truthy :: "pyval \<Rightarrow> bool" where
  "truthy PNone = False"
| "truthy (PBool b) = b"
| "truthy (PNum x) = (x \<noteq> 0)"
| "truthy (PStr s) = (s \<noteq> [])"
| "truthy (PList xs) = (xs \<noteq> [])"
| "truthy (PDict kvs) = (kvs \<noteq> [])"

text \<open>\<^verbatim>\<open>d.get(key, default)\<close> on a dict.\<close>

definition dict_get :: "(string \<times> pyval) list \<Rightarrow> string \<Rightarrow> pyval \<Rightarrow> pyval" where
  "dict_get d key dflt = (case map_of d key of None \<Rightarrow> dflt | Some v \<Rightarrow> v)"

text \<open>
  The items that \<^verbatim>\<open>list.extend\<close> takes from a value: the elements of a list, the
  characters of a string, the keys of a dict; \<open>None\<close> where Python raises TypeError.
\<close>

fun py_iter :: "pyval \<Rightarrow> pyval list option" where
  "py_iter (PList xs) = Some xs"
| "py_iter (PStr s) = Some (map (\<lambda>c. PStr [c]) s)"
| "py_iter (PDict kvs) = Some (map (\<lambda>kv. PStr (fst kv)) kvs)"
| "py_iter v = None"

text \<open>\<^verbatim>\<open>len\<close>; \<open>None\<close> where Python raises TypeError.\<close>

fun py_len :: "pyval \<Rightarrow> nat option" where
  "py_len (PList xs) = Some (length xs)"
| "py_len (PStr s) = Some (length s)"
| "py_len (PDict kvs) = Some (length kvs)"
| "py_len v = None"

text \<open>\<^verbatim>\<open>str.strip()\<close> and \<^verbatim>\<open>str.strip(chars)\<close>, which removes every leading and trailing
  character that occurs in \<open>chars\<close>.\<close>

definition strip_where :: "(char \<Rightarrow> bool) \<Rightarrow> string \<Rightarrow> string" where
  "strip_where P s = rev (dropWhile P (rev (dropWhile P s)))"

definition py_strip :: "string \<Rightarrow> string" where
  "py_strip s = strip_where is_space s"

definition py_strip_chars :: "string \<Rightarrow> string \<Rightarrow> string" where
  "py_strip_chars chars s = strip_where (\<lambda>c. c \<in> set chars) s"

subsection \<open>The judgment service\<close>

text \<open>
  What the reducer reads from a response object: the text of the first candidate
  (\<open>None\<close> when reading it raises, which the inner \<^verbatim>\<open>except\<close> catches), the attribute
  \<^verbatim>\<open>text\<close> (\<open>None\<close> for Python's \<^verbatim>\<open>None\<close>) and the attribute \<^verbatim>\<open>parsed\<close> (\<open>PNone\<close> when it is
  absent).
\<close>

record response =
  candidate_text :: "string option"
  response_text :: "string option"
  parsed :: pyval

text \<open>
  The external services: the model call for a batch, by batch number (\<open>None\<close> when the call
  raises), and \<^verbatim>\<open>json.loads\<close> (\<open>None\<close> when the text does not parse).
\<close>

record llm_services =
  generate_content :: "nat \<Rightarrow> pyval list \<Rightarrow> response option"
  json_loads :: "string \<Rightarrow> pyval option"

text \<open>The two warnings the reducer prints, each with the number of the batch.\<close>

datatype warning = Empty_response nat | Error_processing nat

text \<open>The local variables of the reducer, and the warnings printed so far.\<close>

record llm_state =
  all_unique_features :: "pyval list"
  llm_removed_count :: nat
  console :: "warning list"

text \<open>The handler \<^verbatim>\<open>except Exception as e\<close>: a warning, and the whole batch is kept.\<close>

definition keep_batch_on_error :: "nat \<Rightarrow> pyval list \<Rightarrow> llm_state \<Rightarrow> llm_state" where
  "keep_batch_on_error batch_num batch st =
     st\<lparr>all_unique_features := all_unique_features st @ batch,
        console := console st @ [Error_processing batch_num]\<rparr>"

text \<open>
  One item of the sample printed for the first batches: \<^verbatim>\<open>item.get("reason", ...)\<close> needs a
  dict, and \<^verbatim>\<open>item.get('when', '')[:50]\<close> needs a value that can be sliced.
\<close>

fun sample_item_ok :: "pyval \<Rightarrow> bool" where
  "sample_item_ok (PDict d) =
     (case dict_get d ''when'' (PStr []) of PStr s \<Rightarrow> True | PList xs \<Rightarrow> True | _ \<Rightarrow> False)"
| "sample_item_ok v = False"

text \<open>The loop \<^verbatim>\<open>for item in removed[:3]\<close>: it runs through without an exception.\<close>

fun sample_removals_ok :: "pyval \<Rightarrow> bool" where
  "sample_removals_ok (PList xs) = list_all sample_item_ok (take 3 xs)"
| "sample_removals_ok (PStr s) = (s = [])"
| "sample_removals_ok v = False"

text \<open>
  Lines 302 to 318, run on the decoded result inside the \<^verbatim>\<open>try\<close>: each step that raises
  hands the state reached so far to the handler.
\<close>

definition use_result :: "nat \<Rightarrow> pyval list \<Rightarrow> pyval \<Rightarrow> llm_state \<Rightarrow> llm_state" where
  "use_result batch_num batch result st =
     (case result of
        PDict d \<Rightarrow>
          (let kept = dict_get d ''features'' (PList []);
               removed = dict_get d ''removed'' (PList [])
           in case py_iter kept of
                None \<Rightarrow> keep_batch_on_error batch_num batch st
              | Some ks \<Rightarrow>
                  (let st1 = st\<lparr>all_unique_features := all_unique_features st @ ks\<rparr>
                   in case py_len removed of
                        None \<Rightarrow> keep_batch_on_error batch_num batch st1
                      | Some n \<Rightarrow>
                          (let st2 = st1\<lparr>llm_removed_count := llm_removed_count st1 + n\<rparr>
                           in if truthy removed \<and> batch_num \<le> 3 \<and> \<not> sample_removals_ok removed
                              then keep_batch_on_error batch_num batch st2
                              else st2)))
      | _ \<Rightarrow> keep_batch_on_error batch_num batch st)"

text \<open>\<^verbatim>\<open>text_out\<close>: the stripped candidate text, or \<^verbatim>\<open>response.text or ""\<close>.\<close>

definition text_out_of :: "response \<Rightarrow> string" where
  "text_out_of r =
     (case candidate_text r of
        Some t \<Rightarrow> py_strip t
      | None \<Rightarrow> (case response_text r of Some t \<Rightarrow> t | None \<Rightarrow> []))"

text \<open>The body of the loop over the batches.\<close>

definition process_batch :: "llm_services \<Rightarrow> nat \<Rightarrow> pyval list \<Rightarrow> llm_state \<Rightarrow> llm_state" where
  "process_batch sv batch_num batch st =
     (case generate_content sv batch_num batch of
        None \<Rightarrow> keep_batch_on_error batch_num batch st
      | Some r \<Rightarrow>
          (let text_out = text_out_of r in
           if truthy (parsed r) then use_result batch_num batch (parsed r) st
           else if text_out \<noteq> [] then
             (case json_loads sv (py_strip_chars ''```'' (py_strip_chars ''```json'' (py_strip text_out))) of
                None \<Rightarrow> keep_batch_on_error batch_num batch st
              | Some result \<Rightarrow> use_result batch_num batch result st)
           else st\<lparr>all_unique_features := all_unique_features st @ batch,
                   console := console st @ [Empty_response batch_num]\<rparr>))"

text \<open>\<^verbatim>\<open>range(0, total, batch_size)\<close> for a positive step.\<close>

definition batch_starts :: "nat \<Rightarrow> nat \<Rightarrow> nat list" where
  "batch_starts total_features b = map (\<lambda>k. k * b) [0..<(total_features + b - 1) div b]"

text \<open>The loop \<^verbatim>\<open>for batch_num, i in enumerate(range(0, total_features, batch_size), 1)\<close>
  with the slice \<^verbatim>\<open>features[i:i+batch_size]\<close>.\<close>

fun batch_loop ::
  "llm_services \<Rightarrow> pyval list \<Rightarrow> nat \<Rightarrow> nat \<Rightarrow> nat list \<Rightarrow> llm_state \<Rightarrow> llm_state" where
  "batch_loop sv fs b batch_num [] st = st"
| "batch_loop sv fs b batch_num (i # starts) st =
     batch_loop sv fs b (Suc batch_num) starts
       (process_batch sv batch_num (take b (drop i fs)) st)"

text \<open>
  The argument and the result of the reducer: a dict whose key \<^verbatim>\<open>features\<close>, when
  present, holds a list; the other keys are carried along.
\<close>

record bdd_json =
  json_features :: "pyval list option"
  other_keys :: "(string \<times> pyval) list"

datatype llm_error = Range_step_zero

definition init_llm_state :: llm_state where
  "init_llm_state = \<lparr>all_unique_features = [], llm_removed_count = 0, console = []\<rparr>"

text \<open>
  The reducer returns its argument when there are no features. A batch size of zero makes
  \<^verbatim>\<open>range\<close> raise ValueError, and a negative one gives no batch at all. The final state is
  returned beside the result, for the count and the warnings that the source prints.
\<close>

definition clean_duplicates_with_llm ::
  "llm_services \<Rightarrow> bdd_json \<Rightarrow> int \<Rightarrow> llm_error + (bdd_json \<times> llm_state)" where
  "clean_duplicates_with_llm sv bdd_json_data batch_size =
     (let fs = (case json_features bdd_json_data of None \<Rightarrow> [] | Some xs \<Rightarrow> xs);
          total_features = length fs
      in if total_features = 0 then Inr (bdd_json_data, init_llm_state)
         else if batch_size = 0 then Inl Range_step_zero
         else
           (let starts = (if batch_size < 0 then [] else batch_starts total_features (nat batch_size));
                st = batch_loop sv fs (nat batch_size) 1 starts init_llm_state
            in Inr (\<lparr>json_features = Some (all_unique_features st), other_keys = []\<rparr>, st)))"

subsection \<open>The two strategies as Python values\<close>

text \<open>A scenario record as the dict it is, and the argument and result of the reducers.\<close>

definition py_of_scenario :: "scenario \<Rightarrow> pyval" where
  "py_of_scenario f =
     PDict ((case s_given f of None \<Rightarrow> [] | Some t \<Rightarrow> [(''given'', PStr t)]) @
            (case s_when f of None \<Rightarrow> [] | Some t \<Rightarrow> [(''when'', PStr t)]) @
            (case s_then f of None \<Rightarrow> [] | Some t \<Rightarrow> [(''then'', PStr t)]))"

definition py_of_features :: "scenario list \<Rightarrow> pyval" where
  "py_of_features fs = PList (map py_of_scenario fs)"

definition py_of_bdd_json :: "bdd_json \<Rightarrow> pyval" where
  "py_of_bdd_json d =
     PDict ((case json_features d of None \<Rightarrow> [] | Some xs \<Rightarrow> [(''features'', PList xs)]) @
            other_keys d)"

text \<open>The Python type of a value, by name; the two numeric types are not told apart.\<close>

fun py_type :: "pyval \<Rightarrow> string" where
  "py_type PNone = ''NoneType''"
| "py_type (PBool b) = ''bool''"
| "py_type (PNum x) = ''number''"
| "py_type (PStr s) = ''str''"
| "py_type (PList xs) = ''list''"
| "py_type (PDict kvs) = ''dict''"

subsection \<open>Example inputs\<close>

definition scenario_of :: "string \<Rightarrow> string \<Rightarrow> string \<Rightarrow> scenario" where
  "scenario_of g w t = \<lparr>s_given = Some g, s_when = Some w, s_then = Some t\<rparr>"

text \<open>
  Three scenarios about one request, every two of them with similarity 0.95; the first
  two differ in the contrast pair approve/reject.
\<close>

definition example_requests :: "scenario list" where
  "example_requests =
     [scenario_of ''a request is pending'' ''the request is approved'' ''the user is notified'',
      scenario_of ''a request is pending'' ''the request is rejected'' ''the user is notified'',
      scenario_of ''a request is pending'' ''the request is handled'' ''the user is notified'']"

definition example_requests_sim :: "nat \<Rightarrow> nat \<Rightarrow> real" where
  "example_requests_sim i j = (if i = j then 1 else 95 / 100)"

text \<open>
  Four scenarios whose similarities are the cosines of the unit vectors
  \<open>v\<^sub>1 = (0, 0, 1)\<close>, \<open>v\<^sub>2 = (sin a, 0, cos a)\<close>, \<open>v\<^sub>3 = (- sin a, 0, cos a)\<close> and
  \<open>v\<^sub>0 = (0, sin b, cos b)\<close> with \<open>cos a = 0.95\<close> and \<open>cos b = 0.85\<close>: a symmetric
  matrix with unit diagonal.
\<close>

definition example_orders :: "scenario list" where
  "example_orders =
     [scenario_of ''a cart with items'' ''the user pays'' ''the order is stored'',
      scenario_of ''a cart with items'' ''the user pays'' ''the order is saved'',
      scenario_of ''a cart with items'' ''the user pays'' ''the order gets saved'',
      scenario_of ''a cart with items'' ''the user pays now'' ''the order is saved'']"

definition example_orders_sim :: "nat \<Rightarrow> nat \<Rightarrow> real" where
  "example_orders_sim i j =
     (if i = j then 1
      else if (i, j) \<in> {(0, 1), (1, 0)} then 85 / 100
      else if (i, j) \<in> {(1, 2), (2, 1), (1, 3), (3, 1)} then 95 / 100
      else if (i, j) \<in> {(2, 3), (3, 2)} then 805 / 1000
      else 8075 / 10000)"

text \<open>
  Two scenarios that differ in the wording of their Then step, with a cosine matrix over
  their six steps and a classifier that finds the two Then steps entailed.
\<close>

definition example_forms :: "scenario list" where
  "example_forms =
     [scenario_of ''user logged in'' ''clicks submit'' ''form is saved'',
      scenario_of ''user logged in'' ''clicks submit'' ''form gets saved'']"

definition example_services :: nli_services where
  "example_services =
     \<lparr>cosine_matrix = (\<lambda>i j. if i = j then 1
                              else if (i, j) \<in> {(2, 5), (5, 2)} then 92 / 100
                              else if (i, j) \<in> {(1, 2), (2, 1)} then 7 / 10
                              else 3 / 10),
      nli_model = (\<lambda>x. if x = ''Then: form is saved </s> Then: form gets saved''
                        then Some (''ENTAILMENT'', 97 / 100)
                        else Some (''NEUTRAL'', 9 / 10)),
      py_round = (\<lambda>x n. x)\<rparr>"

text \<open>
  The two form scenarios as the argument of the batch reducer, with three judgment
  services: one whose call always raises, one that answers with an empty text, and one
  that keeps every scenario of the batch and removes none.
\<close>

definition example_forms_sim :: "nat \<Rightarrow> nat \<Rightarrow> real" where
  "example_forms_sim i j = (if i = j then 1 else 92 / 100)"

definition example_forms_json :: bdd_json where
  "example_forms_json = \<lparr>json_features = Some (map py_of_scenario example_forms), other_keys = []\<rparr>"

definition failing_service :: llm_services where
  "failing_service = \<lparr>generate_content = (\<lambda>n batch. None), json_loads = (\<lambda>s. None)\<rparr>"

definition silent_service :: llm_services where
  "silent_service =
     \<lparr>generate_content = (\<lambda>n batch. Some \<lparr>candidate_text = Some ''  '', response_text = None, parsed = PNone\<rparr>),
      json_loads = (\<lambda>s. None)\<rparr>"

definition garbled_service :: llm_services where
  "garbled_service =
     \<lparr>generate_content = (\<lambda>n batch. Some \<lparr>candidate_text = Some ''I kept them all'', response_text = None, parsed = PNone\<rparr>),
      json_loads = (\<lambda>s. None)\<rparr>"

definition keeping_service :: llm_services where
  "keeping_service =
     \<lparr>generate_content = (\<lambda>n batch. Some \<lparr>candidate_text = None, response_text = None,
          parsed = PDict [(''features'', PList batch), (''removed'', PList [])]\<rparr>),
      json_loads = (\<lambda>s. None)\<rparr>"

text \<open>
  The four order scenarios in batches of two, with a service whose call raises for the
  first batch and that, for every later batch, keeps the first scenario and removes the
  rest.
\<close>

definition example_orders_json :: bdd_json where
  "example_orders_json = \<lparr>json_features = Some (map py_of_scenario example_orders), other_keys = []\<rparr>"

definition mixed_service :: llm_services where
  "mixed_service =
     \<lparr>generate_content = (\<lambda>n batch. if n = 1 then None
          else Some \<lparr>candidate_text = None, response_text = None,
                 parsed = PDict [(''features'', PList (take 1 batch)), (''removed'', PList (drop 1 batch))]\<rparr>),
      json_loads = (\<lambda>s. None)\<rparr>"

section \<open>Properties of the reduction loop\<close>

subsection \<open>The inner loop in closed form\<close>

lemma inner_loop_seen:
  "seen (fold (inner_step F sim t i) js st) = seen st \<union> {j \<in> set js. dup_pair F sim t i j}"
  by (induction js arbitrary: st) (auto simp: inner_step_def)

lemma inner_loop_unique:
  "unique_indices (fold (inner_step F sim t i) js st) = unique_indices st"
  by (induction js arbitrary: st) (auto simp: inner_step_def)

lemma inner_loop_features:
  "features_var (fold (inner_step F sim t i) js st) = features_var st"
  by (induction js arbitrary: st) (auto simp: inner_step_def)

lemma inner_loop_duplicates:
  "duplicates (fold (inner_step F sim t i) js st) =
     duplicates st @ map (\<lambda>j. (i, j, sim i j)) (filter (dup_pair F sim t i) js)"
  by (induction js arbitrary: st) (auto simp: inner_step_def)

subsection \<open>The outer loop, one iteration at a time\<close>

lemma scan_0: "scan F sim t 0 = init_state F"
  by (simp add: scan_def)

lemma scan_Suc: "scan F sim t (Suc k) = outer_step F sim t k (scan F sim t k)"
  by (simp add: scan_def)

text \<open>No iteration assigns to the list variable.\<close>

lemma features_outer_step: "features_var (outer_step F sim t k st) = features_var st"
  by (simp add: outer_step_def Let_def inner_loop_features)

lemma features_scan [simp]: "features_var (scan F sim t k) = F"
  by (induction k) (simp_all add: scan_0 init_state_def scan_Suc features_outer_step)

lemma seen_outer_step:
  "features_var st = F \<Longrightarrow>
   seen (outer_step F sim t k st) =
     (if k \<in> seen st then seen st
      else seen st \<union> {j. k < j \<and> j < length F \<and> dup_pair F sim t k j})"
  by (auto simp: outer_step_def Let_def inner_loop_seen)

lemma unique_outer_step:
  "unique_indices (outer_step F sim t k st) =
     (if k \<in> seen st then unique_indices st else unique_indices st @ [k])"
  by (simp add: outer_step_def Let_def inner_loop_unique)

lemma duplicates_outer_step:
  "features_var st = F \<Longrightarrow>
   duplicates (outer_step F sim t k st) =
     (if k \<in> seen st then duplicates st
      else duplicates st @
           map (\<lambda>j. (k, j, sim k j)) (filter (dup_pair F sim t k) [Suc k..<length F]))"
  by (simp add: outer_step_def Let_def inner_loop_duplicates)

text \<open>Indices are only ever marked as seen ahead of the outer loop's position.\<close>

lemma seen_scan_mono: "seen (scan F sim t k) \<subseteq> seen (scan F sim t (Suc k))"
  by (auto simp: scan_Suc seen_outer_step)

lemma seen_scan_below:
  "j < k \<Longrightarrow> j \<in> seen (scan F sim t (Suc k)) \<longleftrightarrow> j \<in> seen (scan F sim t k)"
  by (auto simp: scan_Suc seen_outer_step)

lemma seen_scan_bound: "j \<in> seen (scan F sim t k) \<Longrightarrow> j < length F"
  by (induction k) (auto simp: scan_0 init_state_def scan_Suc seen_outer_step split: if_splits)

lemma seen_scan_stable:
  "j < k \<Longrightarrow> k \<le> m \<Longrightarrow> j \<in> seen (scan F sim t m) \<longleftrightarrow> j \<in> seen (scan F sim t k)"
proof (induction m)
  case 0
  then show ?case by simp
next
  case (Suc m)
  show ?case
  proof (cases "k = Suc m")
    case True
    then show ?thesis by simp
  next
    case False
    with Suc.prems have km: "k \<le> m" and jm: "j < m" by simp_all
    from seen_scan_below [OF jm] Suc.IH [OF Suc.prems(1) km] show ?thesis by simp
  qed
qed

text \<open>The kept indices after \<open>k\<close> iterations are the unseen indices below \<open>k\<close>, ascending.\<close>

lemma unique_scan_set:
  "set (unique_indices (scan F sim t k)) = {i. i < k \<and> i \<notin> seen (scan F sim t k)}"
proof (induction k)
  case 0
  show ?case by (simp add: scan_0 init_state_def)
next
  case (Suc k)
  have below: "\<And>i. i < k \<Longrightarrow> i \<in> seen (scan F sim t (Suc k)) \<longleftrightarrow> i \<in> seen (scan F sim t k)"
    by (rule seen_scan_below)
  have at: "k \<in> seen (scan F sim t (Suc k)) \<longleftrightarrow> k \<in> seen (scan F sim t k)"
    by (auto simp: scan_Suc seen_outer_step)
  show ?case
  proof (cases "k \<in> seen (scan F sim t k)")
    case True
    then have "set (unique_indices (scan F sim t (Suc k))) =
        {i. i < k \<and> i \<notin> seen (scan F sim t k)}"
      by (simp add: scan_Suc unique_outer_step Suc.IH)
    also have "\<dots> = {i. i < Suc k \<and> i \<notin> seen (scan F sim t (Suc k))}"
      using True at below by (auto simp: less_Suc_eq)
    finally show ?thesis .
  next
    case False
    then have "set (unique_indices (scan F sim t (Suc k))) =
        insert k {i. i < k \<and> i \<notin> seen (scan F sim t k)}"
      by (simp add: scan_Suc unique_outer_step Suc.IH)
    also have "\<dots> = {i. i < Suc k \<and> i \<notin> seen (scan F sim t (Suc k))}"
      using False at below by (auto simp: less_Suc_eq)
    finally show ?thesis .
  qed
qed

lemma unique_scan_sorted: "sorted_wrt (<) (unique_indices (scan F sim t k))"
proof (induction k)
  case 0
  show ?case by (simp add: scan_0 init_state_def)
next
  case (Suc k)
  then show ?case
    by (auto simp: scan_Suc unique_outer_step sorted_wrt_append unique_scan_set)
qed

lemma unique_scan_distinct: "distinct (unique_indices (scan F sim t k))"
  using unique_scan_sorted [of F sim t k] by (simp add: strict_sorted_iff)

text \<open>Every recorded pair was tested by a kept anchor against a later index.\<close>

lemma duplicates_scan_entries:
  "(i, j, s) \<in> set (duplicates (scan F sim t k)) \<Longrightarrow>
     i < k \<and> i < j \<and> j < length F \<and> s = sim i j \<and> dup_pair F sim t i j \<and>
     i \<notin> seen (scan F sim t k) \<and> j \<in> seen (scan F sim t k)"
proof (induction k)
  case 0
  then show ?case by (simp add: scan_0 init_state_def)
next
  case (Suc k)
  let ?st = "scan F sim t k"
  show ?case
  proof (cases "(i, j, s) \<in> set (duplicates ?st)")
    case True
    from Suc.IH [OF True] have old: "i < k" "i < j" "j < length F" "s = sim i j"
      "dup_pair F sim t i j" "i \<notin> seen ?st" "j \<in> seen ?st" by simp_all
    from old(1,6) have "i \<notin> seen (scan F sim t (Suc k))"
      by (simp add: seen_scan_below)
    moreover from old(7) have "j \<in> seen (scan F sim t (Suc k))"
      using seen_scan_mono by blast
    ultimately show ?thesis using old by simp
  next
    case False
    with Suc.prems have nk: "k \<notin> seen ?st"
      and new: "(i, j, s) \<in> (\<lambda>j. (k, j, sim k j)) ` {j \<in> set [Suc k..<length F]. dup_pair F sim t k j}"
      by (auto simp: scan_Suc duplicates_outer_step split: if_splits)
    from new have ik: "i = k" and kj: "k < j" and jn: "j < length F" and s: "s = sim k j"
      and d: "dup_pair F sim t k j" by auto
    from nk have "k \<notin> seen (scan F sim t (Suc k))"
      by (auto simp: scan_Suc seen_outer_step)
    moreover from nk kj jn d have "j \<in> seen (scan F sim t (Suc k))"
      by (simp add: scan_Suc seen_outer_step)
    ultimately show ?thesis using ik kj jn s d by simp
  qed
qed

lemma seen_scan_reason:
  "j \<in> seen (scan F sim t k) \<Longrightarrow> \<exists>i. (i, j, sim i j) \<in> set (duplicates (scan F sim t k))"
proof (induction k)
  case 0
  then show ?case by (simp add: scan_0 init_state_def)
next
  case (Suc k)
  let ?st = "scan F sim t k"
  show ?case
  proof (cases "j \<in> seen ?st")
    case True
    from Suc.IH [OF True] obtain i where "(i, j, sim i j) \<in> set (duplicates ?st)" ..
    then have "(i, j, sim i j) \<in> set (duplicates (scan F sim t (Suc k)))"
      by (simp add: scan_Suc duplicates_outer_step)
    then show ?thesis ..
  next
    case False
    with Suc.prems have nk: "k \<notin> seen ?st" and kj: "k < j" and jn: "j < length F"
      and d: "dup_pair F sim t k j"
      by (auto simp: scan_Suc seen_outer_step split: if_splits)
    then have "(k, j, sim k j) \<in> set (duplicates (scan F sim t (Suc k)))"
      by (simp add: scan_Suc duplicates_outer_step)
    then show ?thesis ..
  qed
qed

lemma duplicates_scan_distinct:
  "distinct (map (\<lambda>(i, j, s). (i, j)) (duplicates (scan F sim t k)))"
proof (induction k)
  case 0
  show ?case by (simp add: scan_0 init_state_def)
next
  case (Suc k)
  let ?st = "scan F sim t k"
  let ?new = "map (\<lambda>j. (k, j, sim k j)) (filter (dup_pair F sim t k) [Suc k..<length F])"
  have new_map: "map (\<lambda>(i, j, s). (i, j)) ?new = map (Pair k) (filter (dup_pair F sim t k) [Suc k..<length F])"
    by simp
  have d_new: "distinct (map (\<lambda>(i, j, s). (i, j)) ?new)"
    unfolding new_map by (simp add: distinct_map inj_on_def)
  have disj: "set (map (\<lambda>(i, j, s). (i, j)) (duplicates ?st)) \<inter> set (map (\<lambda>(i, j, s). (i, j)) ?new) = {}"
  proof -
    have "\<And>i j s. (i, j, s) \<in> set (duplicates ?st) \<Longrightarrow> i < k"
      using duplicates_scan_entries [of _ _ _ F sim t k] by blast
    then show ?thesis unfolding new_map by fastforce
  qed
  show ?case
    using Suc.IH d_new disj by (simp add: scan_Suc duplicates_outer_step del: map_map)
qed



lemma duplicates_scan_iff:
  "(i, j, s) \<in> set (duplicates (scan F sim t k)) \<longleftrightarrow>
     i < k \<and> i < j \<and> j < length F \<and> s = sim i j \<and> dup_pair F sim t i j \<and>
     i \<notin> seen (scan F sim t k)"
proof
  assume "(i, j, s) \<in> set (duplicates (scan F sim t k))"
  from duplicates_scan_entries [OF this]
  show "i < k \<and> i < j \<and> j < length F \<and> s = sim i j \<and> dup_pair F sim t i j \<and>
     i \<notin> seen (scan F sim t k)" by simp
next
  assume "i < k \<and> i < j \<and> j < length F \<and> s = sim i j \<and> dup_pair F sim t i j \<and>
     i \<notin> seen (scan F sim t k)"
  then show "(i, j, s) \<in> set (duplicates (scan F sim t k))"
  proof (induction k)
    case 0
    then show ?case by simp
  next
    case (Suc k)
    then have ij: "i < j" and jn: "j < length F" and s: "s = sim i j"
      and d: "dup_pair F sim t i j" and ns: "i \<notin> seen (scan F sim t (Suc k))"
      and ik: "i < Suc k" by simp_all
    show ?case
    proof (cases "i = k")
      case True
      with ns have "k \<notin> seen (scan F sim t k)"
        using seen_scan_mono by blast
      with True ij jn s d show ?thesis
        by (simp add: scan_Suc duplicates_outer_step)
    next
      case False
      with ik have lt: "i < k" by simp
      with ns have "i \<notin> seen (scan F sim t k)"
        by (simp add: seen_scan_below)
      with lt ij jn s d Suc.IH have "(i, j, s) \<in> set (duplicates (scan F sim t k))"
        by simp
      then show ?thesis
        by (simp add: scan_Suc duplicates_outer_step)
    qed
  qed
qed

lemma seen_scan_iff:
  "j \<in> seen (scan F sim t k) \<longleftrightarrow>
     j < length F \<and> (\<exists>i. i < k \<and> i < j \<and> dup_pair F sim t i j \<and> i \<notin> seen (scan F sim t k))"
proof
  assume j: "j \<in> seen (scan F sim t k)"
  then obtain i where "(i, j, sim i j) \<in> set (duplicates (scan F sim t k))"
    using seen_scan_reason by blast
  then show "j < length F \<and> (\<exists>i. i < k \<and> i < j \<and> dup_pair F sim t i j \<and> i \<notin> seen (scan F sim t k))"
    unfolding duplicates_scan_iff by blast
next
  assume "j < length F \<and> (\<exists>i. i < k \<and> i < j \<and> dup_pair F sim t i j \<and> i \<notin> seen (scan F sim t k))"
  then obtain i where "i < k \<and> i < j \<and> j < length F \<and> sim i j = sim i j \<and> dup_pair F sim t i j \<and>
     i \<notin> seen (scan F sim t k)" by blast
  then have "(i, j, sim i j) \<in> set (duplicates (scan F sim t k))"
    by (simp add: duplicates_scan_iff)
  from duplicates_scan_entries [OF this] show "j \<in> seen (scan F sim t k)" by simp
qed

lemma seen_final_iff:
  "j \<in> seen (dedup_loop F sim t) \<longleftrightarrow>
     j < length F \<and> (\<exists>i<j. dup_pair F sim t i j \<and> i \<notin> seen (dedup_loop F sim t))"
proof -
  have "(\<exists>i. i < length F \<and> i < j \<and> dup_pair F sim t i j \<and> i \<notin> seen (scan F sim t (length F))) \<longleftrightarrow>
        (\<exists>i<j. dup_pair F sim t i j \<and> i \<notin> seen (scan F sim t (length F)))"
    if "j < length F"
    using that less_trans by blast
  then show ?thesis
    unfolding dedup_loop_def by (subst seen_scan_iff) blast
qed

lemma inner_prefix_duplicates:
  "(i, j, s) \<in> set (duplicates (fold (inner_step F sim t k) js (scan F sim t k))) \<Longrightarrow>
     dup_pair F sim t i j"
  by (auto simp: inner_loop_duplicates duplicates_scan_iff)

lemma unique_final_set:
  "set (unique_indices (dedup_loop F sim t)) = {i. i < length F \<and> i \<notin> seen (dedup_loop F sim t)}"
  by (simp add: dedup_loop_def unique_scan_set)

lemma seen_final_bound: "seen (dedup_loop F sim t) \<subseteq> {0..<length F}"
  using seen_scan_bound [of _ F sim t "length F"] by (auto simp: dedup_loop_def)

lemma kept_removed_count:
  "length (unique_indices (dedup_loop F sim t)) + card (seen (dedup_loop F sim t)) = length F"
proof -
  let ?U = "unique_indices (dedup_loop F sim t)"
  let ?S = "seen (dedup_loop F sim t)"
  have disj: "set ?U \<inter> ?S = {}"
    by (auto simp: unique_final_set)
  have cover: "set ?U \<union> ?S = {0..<length F}"
    using seen_final_bound [of F sim t] by (auto simp: unique_final_set)
  have dist: "distinct ?U"
    by (simp add: dedup_loop_def unique_scan_distinct)
  have fin: "finite ?S"
    using seen_final_bound [of F sim t] finite_subset by blast
  have "card (set ?U) + card ?S = card (set ?U \<union> ?S)"
    using disj fin by (simp add: card_Un_disjoint)
  then show ?thesis
    using dist cover by (simp add: distinct_card)
qed

lemma removed_count_card: "removed_count F sim t = card (seen (dedup_loop F sim t))"
  using kept_removed_count [of F sim t] by (simp add: removed_count_def)

lemma features_final [simp]: "features_var (dedup_loop F sim t) = F"
  by (simp add: dedup_loop_def)

text \<open>On a non-empty list the reducer returns, and the result is the argument read at the kept indices.\<close>

lemma reducer_returns:
  "F \<noteq> [] \<Longrightarrow>
     remove_duplicates_cosine_90 F sim t =
       Inr (map (\<lambda>i. F ! i) (unique_indices (dedup_loop F sim t)))"
  by (simp add: remove_duplicates_cosine_90_def Let_def)

lemma reducer_result:
  "remove_duplicates_cosine_90 F sim t = Inr kept \<Longrightarrow>
     F \<noteq> [] \<and> kept = map (\<lambda>i. F ! i) (unique_indices (dedup_loop F sim t))"
  by (auto simp: remove_duplicates_cosine_90_def Let_def split: if_splits)

subsection \<open>The partition of the indices\<close>




subsection \<open>The contrast veto\<close>

text \<open>
  Claim C2. When the contrast check holds on the When+Then texts of scenarios \<open>i\<close> and
  \<open>j\<close>, no record \<open>(i, j, score)\<close> is ever in \<^verbatim>\<open>duplicates\<close>, whatever the similarity: not
  after any number \<open>k\<close> of outer iterations, and not after any part \<open>js\<close> of the inner loop
  that follows them. And every index in the removed set got there through a recorded pair
  whose texts have no contrast.
\<close>

theorem contrast_veto:
  "(has_contrast (when_then (F ! i)) (when_then (F ! j)) \<longrightarrow>
      (\<forall>s js. (i, j, s) \<notin> set (duplicates (fold (inner_step F sim t k) js (scan F sim t k))))) \<and>
   (j \<in> seen (scan F sim t k) \<longrightarrow>
      (\<exists>a. a < j \<and> (a, j, sim a j) \<in> set (duplicates (scan F sim t k)) \<and>
           \<not> has_contrast (when_then (F ! a)) (when_then (F ! j))))"
proof (intro conjI impI allI)
  fix s js
  assume c: "has_contrast (when_then (F ! i)) (when_then (F ! j))"
  show "(i, j, s) \<notin> set (duplicates (fold (inner_step F sim t k) js (scan F sim t k)))"
  proof
    assume "(i, j, s) \<in> set (duplicates (fold (inner_step F sim t k) js (scan F sim t k)))"
    from inner_prefix_duplicates [OF this] c show False
      by (simp add: dup_pair_def)
  qed
next
  assume "j \<in> seen (scan F sim t k)"
  then obtain a where a: "(a, j, sim a j) \<in> set (duplicates (scan F sim t k))"
    using seen_scan_reason by blast
  from duplicates_scan_entries [OF a] have "a < j" and "dup_pair F sim t a j" by simp_all
  with a show "\<exists>a. a < j \<and> (a, j, sim a j) \<in> set (duplicates (scan F sim t k)) \<and>
           \<not> has_contrast (when_then (F ! a)) (when_then (F ! j))"
    by (auto simp: dup_pair_def)
qed

theorem contrast_veto_witness:
  "has_contrast (when_then (example_requests ! 0)) (when_then (example_requests ! 1)) \<and>
   95 / 100 < example_requests_sim 0 1 + 5 / 100 \<and>
   (\<forall>s. (0, 1, s) \<notin> set (duplicates (scan example_requests example_requests_sim (9 / 10) 3))) \<and>
   2 \<in> seen (scan example_requests example_requests_sim (9 / 10) 3) \<and>
   (\<exists>a. a < 2 \<and>
      (a, 2, example_requests_sim a 2) \<in> set (duplicates (scan example_requests example_requests_sim (9 / 10) 3)) \<and>
      \<not> has_contrast (when_then (example_requests ! a)) (when_then (example_requests ! 2)))"
proof -
  have c: "has_contrast (when_then (example_requests ! 0)) (when_then (example_requests ! 1))"
    by code_simp
  have s: "2 \<in> seen (scan example_requests example_requests_sim (9 / 10) 3)"
    by code_simp
  have h: "95 / 100 < example_requests_sim 0 1 + 5 / 100"
    by (simp add: example_requests_sim_def)
  from contrast_veto [where F = example_requests and i = 0 and j = 1 and sim = example_requests_sim
      and t = "9 / 10" and k = 3] c
  have "\<forall>s js. (0, 1, s) \<notin> set (duplicates (fold (inner_step example_requests example_requests_sim (9 / 10) 3) js
            (scan example_requests example_requests_sim (9 / 10) 3)))"
    by blast
  then have "\<forall>s. (0, 1, s) \<notin> set (duplicates (fold (inner_step example_requests example_requests_sim (9 / 10) 3) []
            (scan example_requests example_requests_sim (9 / 10) 3)))"
    by blast
  then have n: "\<forall>s. (0, 1, s) \<notin> set (duplicates (scan example_requests example_requests_sim (9 / 10) 3))"
    by simp
  from contrast_veto [where F = example_requests and j = 2 and sim = example_requests_sim
      and t = "9 / 10" and k = 3] s
  have e: "\<exists>a. a < 2 \<and>
      (a, 2, example_requests_sim a 2) \<in> set (duplicates (scan example_requests example_requests_sim (9 / 10) 3)) \<and>
      \<not> has_contrast (when_then (example_requests ! a)) (when_then (example_requests ! 2))"
    by blast
  from c h n s e show ?thesis by blast
qed

subsection \<open>The kept list\<close>




subsection \<open>Reason records\<close>

text \<open>
  The inner loop runs over every later index, also over those already in \<^verbatim>\<open>seen\<close>: with
  the three request scenarios, scenario 2 is recorded once by anchor 0 and once more by
  anchor 1, so the claim of a single record per removed scenario fails there.
\<close>

theorem several_reasons_counterexample:
  "duplicates (dedup_loop example_requests example_requests_sim (9 / 10)) =
     [(0, 2, 95 / 100), (1, 2, 95 / 100)]"
  by code_simp

text \<open>
  Claim C4, amended. No pair \<open>(i, j)\<close> is recorded twice. Every record \<open>(i, j, score)\<close>
  has a kept anchor \<open>i\<close>, never itself removed, a later index \<open>j\<close> that is in the removed
  set, and the score \<open>sim i j\<close>. The anchors recorded for \<open>j\<close> are exactly the kept
  indices before \<open>j\<close> whose pair with \<open>j\<close> passes the test, so \<open>j\<close> has one record for
  each of them.
\<close>

theorem reason_records:
  "distinct (map (\<lambda>(i, j, s). (i, j)) (duplicates (dedup_loop F sim t))) \<and>
   (\<forall>(i, j, s) \<in> set (duplicates (dedup_loop F sim t)).
      i < j \<and> j < length F \<and> s = sim i j \<and>
      i \<in> set (unique_indices (dedup_loop F sim t)) \<and> i \<notin> seen (dedup_loop F sim t) \<and>
      j \<in> seen (dedup_loop F sim t)) \<and>
   (j < length F \<longrightarrow>
      {i. \<exists>s. (i, j, s) \<in> set (duplicates (dedup_loop F sim t))} =
      {i. i < j \<and> i \<in> set (unique_indices (dedup_loop F sim t)) \<and> dup_pair F sim t i j})"
proof (intro conjI impI)
  show "distinct (map (\<lambda>(i, j, s). (i, j)) (duplicates (dedup_loop F sim t)))"
    unfolding dedup_loop_def by (rule duplicates_scan_distinct)
next
  show "\<forall>(i, j, s) \<in> set (duplicates (dedup_loop F sim t)).
      i < j \<and> j < length F \<and> s = sim i j \<and>
      i \<in> set (unique_indices (dedup_loop F sim t)) \<and> i \<notin> seen (dedup_loop F sim t) \<and>
      j \<in> seen (dedup_loop F sim t)"
  proof (clarify)
    fix i j s
    assume "(i, j, s) \<in> set (duplicates (dedup_loop F sim t))"
    then have e: "(i, j, s) \<in> set (duplicates (scan F sim t (length F)))"
      by (simp add: dedup_loop_def)
    from duplicates_scan_entries [OF e]
    have f: "i < length F" "i < j" "j < length F" "s = sim i j"
      "i \<notin> seen (dedup_loop F sim t)" "j \<in> seen (dedup_loop F sim t)"
      by (simp_all add: dedup_loop_def)
    from f have "i \<in> set (unique_indices (dedup_loop F sim t))"
      by (simp add: unique_final_set)
    with f show "i < j \<and> j < length F \<and> s = sim i j \<and>
      i \<in> set (unique_indices (dedup_loop F sim t)) \<and> i \<notin> seen (dedup_loop F sim t) \<and>
      j \<in> seen (dedup_loop F sim t)" by simp
  qed
next
  assume jn: "j < length F"
  show "{i. \<exists>s. (i, j, s) \<in> set (duplicates (dedup_loop F sim t))} =
      {i. i < j \<and> i \<in> set (unique_indices (dedup_loop F sim t)) \<and> dup_pair F sim t i j}"
    using jn by (auto simp: dedup_loop_def duplicates_scan_iff unique_scan_set)
qed

theorem reason_records_witness:
  "(0, 2, 95 / 100) \<in> set (duplicates (dedup_loop example_requests example_requests_sim (9 / 10))) \<and>
   0 \<in> set (unique_indices (dedup_loop example_requests example_requests_sim (9 / 10))) \<and>
   0 \<notin> seen (dedup_loop example_requests example_requests_sim (9 / 10)) \<and>
   2 \<in> seen (dedup_loop example_requests example_requests_sim (9 / 10)) \<and>
   95 / 100 = example_requests_sim 0 2 \<and>
   2 < length example_requests \<and>
   {i. \<exists>s. (i, 2, s) \<in> set (duplicates (dedup_loop example_requests example_requests_sim (9 / 10)))} =
   {i. i < 2 \<and> i \<in> set (unique_indices (dedup_loop example_requests example_requests_sim (9 / 10))) \<and>
       dup_pair example_requests example_requests_sim (9 / 10) i 2}"
proof -
  have m: "(0, 2, 95 / 100) \<in> set (duplicates (dedup_loop example_requests example_requests_sim (9 / 10)))"
    by code_simp
  have l: "2 < length example_requests"
    by (simp add: example_requests_def)
  from reason_records [of example_requests example_requests_sim "9 / 10" 2] m l
  show ?thesis by fast
qed

subsection \<open>Changing the threshold\<close>

text \<open>
  With the four order scenarios, threshold 0.82 removes one scenario (anchor 0 removes 1)
  and the higher threshold 0.9 removes two (scenario 1 is now kept and, as an anchor,
  removes 2 and 3): raising the threshold increased the removed count.
\<close>

theorem threshold_counterexample:
  "(82 / 100 :: real) \<le> 9 / 10 \<and>
   removed_count example_orders example_orders_sim (82 / 100) = 1 \<and>
   removed_count example_orders example_orders_sim (9 / 10) = 2"
  by code_simp

text \<open>
  Claim C5, amended. For \<open>t1 \<le> t2\<close>: a pair that passes the test at \<open>t2\<close> passes it
  at \<open>t1\<close>; every scenario removed at \<open>t2\<close> forms with an earlier scenario a pair that
  passes at both thresholds and of which at least one member is removed at \<open>t1\<close>; and when
  nothing is removed at \<open>t1\<close>, nothing is removed at \<open>t2\<close>.
\<close>

theorem threshold_gate_monotone:
  assumes "t1 \<le> t2"
  shows "(dup_pair F sim t2 i j \<longrightarrow> dup_pair F sim t1 i j) \<and>
    (j \<in> seen (dedup_loop F sim t2) \<longrightarrow>
       (\<exists>a<j. dup_pair F sim t2 a j \<and> dup_pair F sim t1 a j \<and>
          (a \<in> seen (dedup_loop F sim t1) \<or> j \<in> seen (dedup_loop F sim t1)))) \<and>
    (removed_count F sim t1 = 0 \<longrightarrow> removed_count F sim t2 = 0)"
proof -
  have gate: "dup_pair F sim t1 a b" if "dup_pair F sim t2 a b" for a b
    using that assms by (auto simp: dup_pair_def)
  have partner: "\<exists>a<j. dup_pair F sim t2 a j \<and> dup_pair F sim t1 a j \<and>
          (a \<in> seen (dedup_loop F sim t1) \<or> j \<in> seen (dedup_loop F sim t1))"
    if j2: "j \<in> seen (dedup_loop F sim t2)" for j
  proof -
    from j2 obtain a where jn: "j < length F" and aj: "a < j" and d2: "dup_pair F sim t2 a j"
      by (subst (asm) seen_final_iff) blast
    from d2 have d1: "dup_pair F sim t1 a j" by (rule gate)
    have "a \<in> seen (dedup_loop F sim t1) \<or> j \<in> seen (dedup_loop F sim t1)"
    proof (cases "a \<in> seen (dedup_loop F sim t1)")
      case True
      then show ?thesis ..
    next
      case False
      with jn aj d1 have "j \<in> seen (dedup_loop F sim t1)"
        by (subst seen_final_iff) blast
      then show ?thesis ..
    qed
    with aj d2 d1 show ?thesis by blast
  qed
  have none: "removed_count F sim t2 = 0" if z: "removed_count F sim t1 = 0"
  proof -
    have fin: "finite (seen (dedup_loop F sim t))" for t
      using seen_final_bound [of F sim t] finite_subset by blast
    from z have "seen (dedup_loop F sim t1) = {}"
      using fin by (simp add: removed_count_card)
    with partner have "seen (dedup_loop F sim t2) = {}" by blast
    then show ?thesis by (simp add: removed_count_card)
  qed
  from gate partner none show ?thesis by blast
qed

theorem threshold_gate_monotone_witness:
  "(82 / 100 :: real) \<le> 9 / 10 \<and>
   dup_pair example_orders example_orders_sim (9 / 10) 1 2 \<and>
   dup_pair example_orders example_orders_sim (82 / 100) 1 2 \<and>
   2 \<in> seen (dedup_loop example_orders example_orders_sim (9 / 10)) \<and>
   (\<exists>a<2. dup_pair example_orders example_orders_sim (9 / 10) a 2 \<and>
      (a \<in> seen (dedup_loop example_orders example_orders_sim (82 / 100)) \<or>
       2 \<in> seen (dedup_loop example_orders example_orders_sim (82 / 100)))) \<and>
   (96 / 100 :: real) \<le> 97 / 100 \<and>
   removed_count example_requests example_requests_sim (96 / 100) = 0 \<and>
   removed_count example_requests example_requests_sim (97 / 100) = 0"
proof -
  have le1: "(82 / 100 :: real) \<le> 9 / 10" and le2: "(96 / 100 :: real) \<le> 97 / 100"
    by simp_all
  have d: "dup_pair example_orders example_orders_sim (9 / 10) 1 2"
    by code_simp
  have s: "2 \<in> seen (dedup_loop example_orders example_orders_sim (9 / 10))"
    by code_simp
  have z: "removed_count example_requests example_requests_sim (96 / 100) = 0"
    by code_simp
  from threshold_gate_monotone [OF le1, of example_orders example_orders_sim 1 2] d s
  have a: "dup_pair example_orders example_orders_sim (82 / 100) 1 2 \<and>
    (\<exists>a<2. dup_pair example_orders example_orders_sim (9 / 10) a 2 \<and>
      (a \<in> seen (dedup_loop example_orders example_orders_sim (82 / 100)) \<or>
       2 \<in> seen (dedup_loop example_orders example_orders_sim (82 / 100))))"
    by blast
  from threshold_gate_monotone [OF le2, of example_requests example_requests_sim 0 0] z
  have b: "removed_count example_requests example_requests_sim (97 / 100) = 0"
    by blast
  from le1 le2 d s z a b show ?thesis by blast
qed

section \<open>Properties of the step analysis\<close>

subsection \<open>Step extraction\<close>

lemma capitalize_keys:
  "capitalize ''given'' = ''Given''" "capitalize ''when'' = ''When''" "capitalize ''then'' = ''Then''"
  by code_simp+

lemma key_step_units:
  "key_step r ''given'' acc = acc @ spec_unit (\<lambda>t. t = []) ''Given'' (s_given r)"
  "key_step r ''when'' acc = acc @ spec_unit (\<lambda>t. t = []) ''When'' (s_when r)"
  "key_step r ''then'' acc = acc @ spec_unit (\<lambda>t. t = []) ''Then'' (s_then r)"
  by (simp_all add: key_step_def get_field_def spec_unit_def capitalize_keys
      del: capitalize.simps split: option.splits)

lemma feature_step_units:
  "feature_step r acc =
     acc @ spec_unit (\<lambda>t. t = []) ''Given'' (s_given r) @
           spec_unit (\<lambda>t. t = []) ''When'' (s_when r) @
           spec_unit (\<lambda>t. t = []) ''Then'' (s_then r)"
  by (simp add: feature_step_def key_step_units)

lemma fold_feature_step:
  "fold feature_step rs acc = acc @ spec_step_units (\<lambda>t. t = []) rs"
  by (induction rs arbitrary: acc) (simp_all add: spec_step_units_def feature_step_units)

lemma length_spec_unit:
  "length (spec_unit (\<lambda>t. t = []) role v) = (if v \<noteq> None \<and> v \<noteq> Some [] then 1 else 0)"
  by (simp add: spec_unit_def split: option.splits)

text \<open>
  A field that holds only whitespace is not empty, so the test \<^verbatim>\<open>if text:\<close> lets it
  through: the extractor makes a unit of it, where the specification's extractor skips it.
\<close>

theorem whitespace_field_counterexample:
  "is_blank ''  '' \<and>
   extract_steps [\<lparr>s_given = Some ''  '', s_when = None, s_then = None\<rparr>] = [''Given:   ''] \<and>
   spec_step_units is_blank [\<lparr>s_given = Some ''  '', s_when = None, s_then = None\<rparr>] = []"
  by code_simp

text \<open>
  Claim C8, amended. The step extractor produces one unit per field that is present and
  not the empty text, and skips the fields that are absent or empty; the units come in
  input order of the scenarios and, within a scenario, in the order Given, When, Then.
  A whitespace-only field is not skipped.
\<close>

theorem step_extraction:
  "extract_steps rs = spec_step_units (\<lambda>t. t = []) rs \<and>
   length (extract_steps rs) =
     (\<Sum>r\<leftarrow>rs. length (filter (\<lambda>v. v \<noteq> None \<and> v \<noteq> Some []) [s_given r, s_when r, s_then r]))"
proof
  show e: "extract_steps rs = spec_step_units (\<lambda>t. t = []) rs"
    by (simp add: extract_steps_def fold_feature_step)
  have "length (spec_step_units (\<lambda>t. t = []) rs) =
     (\<Sum>r\<leftarrow>rs. length (filter (\<lambda>v. v \<noteq> None \<and> v \<noteq> Some []) [s_given r, s_when r, s_then r]))"
    by (induction rs) (simp_all add: spec_step_units_def length_spec_unit)
  with e show "length (extract_steps rs) =
     (\<Sum>r\<leftarrow>rs. length (filter (\<lambda>v. v \<noteq> None \<and> v \<noteq> Some []) [s_given r, s_when r, s_then r]))"
    by simp
qed

subsection \<open>The relation gate\<close>

lemma analyze_pair_Inr:
  assumes "analyze_pair sv bdd_steps p st = Inr st'"
  shows "\<exists>s label conf calls.
    pair_similarity sv bdd_steps p = Some s \<and>
    relation_gate sv s (fst p) (snd p) (nli_calls st) = (Some (label, conf), calls) \<and>
    st' = \<lparr>results = results st @
              [\<lparr>step_1 = fst p, step_2 = snd p, similarity = py_round sv s 4,
                nli_label = label, confidence = py_round sv (conf * 100) 2,
                row_decision = decision_logic s label\<rparr>],
            nli_calls = calls\<rparr>"
proof (cases "pair_similarity sv bdd_steps p")
  case None
  with assms show ?thesis by (simp add: analyze_pair_def)
next
  case (Some s)
  obtain out calls where g: "relation_gate sv s (fst p) (snd p) (nli_calls st) = (out, calls)"
    by (cases "relation_gate sv s (fst p) (snd p) (nli_calls st)")
  show ?thesis
  proof (cases out)
    case None
    with assms Some g show ?thesis by (simp add: analyze_pair_def)
  next
    case (Some lc)
    obtain label conf where lc: "lc = (label, conf)" by (cases lc)
    from assms \<open>pair_similarity sv bdd_steps p = Some s\<close> g Some lc show ?thesis
      by (simp add: analyze_pair_def)
  qed
qed

lemma relation_gate_open:
  "sim_score > 6 / 10 \<Longrightarrow>
     relation_gate sv sim_score s1 s2 calls =
       (nli_model sv (s1 @ '' </s> '' @ s2), calls @ [s1 @ '' </s> '' @ s2])"
  by (simp add: relation_gate_def Let_def)

lemma relation_gate_closed:
  "sim_score \<le> 6 / 10 \<Longrightarrow> relation_gate sv sim_score s1 s2 calls = (Some (''NEUTRAL'', 1), calls)"
  by (simp add: relation_gate_def)

lemma analyze_pair_calls:
  assumes "analyze_pair sv bdd_steps p st = Inr st'"
  shows "nli_calls st' = nli_calls st @
     map (\<lambda>p. fst p @ '' </s> '' @ snd p)
       (filter (\<lambda>p. case pair_similarity sv bdd_steps p of None \<Rightarrow> False | Some s \<Rightarrow> s > 6 / 10) [p])"
proof -
  from analyze_pair_Inr [OF assms] obtain s label conf calls where
    s: "pair_similarity sv bdd_steps p = Some s" and
    g: "relation_gate sv s (fst p) (snd p) (nli_calls st) = (Some (label, conf), calls)" and
    st': "nli_calls st' = calls" by auto
  show ?thesis
  proof (cases "s > 6 / 10")
    case True
    with g relation_gate_open [of s sv "fst p" "snd p" "nli_calls st"] s st' show ?thesis by simp
  next
    case False
    with g relation_gate_closed [of s sv "fst p" "snd p" "nli_calls st"] s st' show ?thesis by simp
  qed
qed

lemma analyze_pair_row:
  assumes "analyze_pair sv bdd_steps p st = Inr st'"
  shows "\<exists>row. results st' = results st @ [row] \<and>
     (case pair_similarity sv bdd_steps p of
        None \<Rightarrow> False
      | Some s \<Rightarrow>
          row_decision row = decision_logic s (nli_label row) \<and>
          (s \<le> 6 / 10 \<longrightarrow> nli_label row = ''NEUTRAL'' \<and> confidence row = py_round sv (1 * 100) 2) \<and>
          (s > 6 / 10 \<longrightarrow> (\<exists>conf. nli_model sv (fst p @ '' </s> '' @ snd p) = Some (nli_label row, conf) \<and>
               confidence row = py_round sv (conf * 100) 2)))"
proof -
  from analyze_pair_Inr [OF assms] obtain s label conf calls where
    s: "pair_similarity sv bdd_steps p = Some s" and
    g: "relation_gate sv s (fst p) (snd p) (nli_calls st) = (Some (label, conf), calls)" and
    st': "results st' = results st @
              [\<lparr>step_1 = fst p, step_2 = snd p, similarity = py_round sv s 4,
                nli_label = label, confidence = py_round sv (conf * 100) 2,
                row_decision = decision_logic s label\<rparr>]" by auto
  show ?thesis
  proof (cases "s > 6 / 10")
    case True
    with g relation_gate_open [of s sv "fst p" "snd p" "nli_calls st"]
    have "nli_model sv (fst p @ '' </s> '' @ snd p) = Some (label, conf)" by simp
    with True s st' show ?thesis by simp
  next
    case False
    with g relation_gate_closed [of s sv "fst p" "snd p" "nli_calls st"]
    have "label = ''NEUTRAL''" and "conf = 1" by simp_all
    with False s st' show ?thesis by simp
  qed
qed

lemma pairs_loop_calls:
  "pairs_loop sv bdd_steps ps st = Inr st' \<Longrightarrow>
     nli_calls st' = nli_calls st @
       map (\<lambda>p. fst p @ '' </s> '' @ snd p)
         (filter (\<lambda>p. case pair_similarity sv bdd_steps p of None \<Rightarrow> False | Some s \<Rightarrow> s > 6 / 10) ps)"
proof (induction ps arbitrary: st)
  case Nil
  then show ?case by simp
next
  case (Cons p ps)
  from Cons.prems obtain st1 where a: "analyze_pair sv bdd_steps p st = Inr st1"
    and l: "pairs_loop sv bdd_steps ps st1 = Inr st'"
    by (auto split: sum.splits)
  from analyze_pair_calls [OF a] Cons.IH [OF l] show ?case by simp
qed

lemma pairs_loop_rows:
  "pairs_loop sv bdd_steps ps st = Inr st' \<Longrightarrow>
     \<exists>rows. results st' = results st @ rows \<and>
       list_all2 (\<lambda>p row. case pair_similarity sv bdd_steps p of
          None \<Rightarrow> False
        | Some s \<Rightarrow>
          row_decision row = decision_logic s (nli_label row) \<and>
          (s \<le> 6 / 10 \<longrightarrow> nli_label row = ''NEUTRAL'' \<and> confidence row = py_round sv (1 * 100) 2) \<and>
          (s > 6 / 10 \<longrightarrow> (\<exists>conf. nli_model sv (fst p @ '' </s> '' @ snd p) = Some (nli_label row, conf) \<and>
               confidence row = py_round sv (conf * 100) 2))) ps rows"
proof (induction ps arbitrary: st)
  case Nil
  then show ?case by simp
next
  case (Cons p ps)
  from Cons.prems obtain st1 where a: "analyze_pair sv bdd_steps p st = Inr st1"
    and l: "pairs_loop sv bdd_steps ps st1 = Inr st'"
    by (auto split: sum.splits)
  from analyze_pair_row [OF a] obtain row where r: "results st1 = results st @ [row]"
    and ok: "case pair_similarity sv bdd_steps p of
        None \<Rightarrow> False
      | Some s \<Rightarrow>
          row_decision row = decision_logic s (nli_label row) \<and>
          (s \<le> 6 / 10 \<longrightarrow> nli_label row = ''NEUTRAL'' \<and> confidence row = py_round sv (1 * 100) 2) \<and>
          (s > 6 / 10 \<longrightarrow> (\<exists>conf. nli_model sv (fst p @ '' </s> '' @ snd p) = Some (nli_label row, conf) \<and>
               confidence row = py_round sv (conf * 100) 2))" by blast
  from Cons.IH [OF l] obtain rows where rs: "results st' = results st1 @ rows"
    and all: "list_all2 (\<lambda>p row. case pair_similarity sv bdd_steps p of
          None \<Rightarrow> False
        | Some s \<Rightarrow>
          row_decision row = decision_logic s (nli_label row) \<and>
          (s \<le> 6 / 10 \<longrightarrow> nli_label row = ''NEUTRAL'' \<and> confidence row = py_round sv (1 * 100) 2) \<and>
          (s > 6 / 10 \<longrightarrow> (\<exists>conf. nli_model sv (fst p @ '' </s> '' @ snd p) = Some (nli_label row, conf) \<and>
               confidence row = py_round sv (conf * 100) 2))) ps rows" by blast
  from r rs have "results st' = results st @ (row # rows)" by simp
  moreover from ok all have "list_all2 (\<lambda>p row. case pair_similarity sv bdd_steps p of
          None \<Rightarrow> False
        | Some s \<Rightarrow>
          row_decision row = decision_logic s (nli_label row) \<and>
          (s \<le> 6 / 10 \<longrightarrow> nli_label row = ''NEUTRAL'' \<and> confidence row = py_round sv (1 * 100) 2) \<and>
          (s > 6 / 10 \<longrightarrow> (\<exists>conf. nli_model sv (fst p @ '' </s> '' @ snd p) = Some (nli_label row, conf) \<and>
               confidence row = py_round sv (conf * 100) 2))) (p # ps) (row # rows)" by simp
  ultimately show ?case by blast
qed

lemma py_index_None: "py_index xs x = None \<longleftrightarrow> x \<notin> set xs"
  by (induction xs) auto

lemma set_combinations2: "set (combinations2 xs) \<subseteq> set xs \<times> set xs"
  by (induction xs) auto

lemma pair_similarity_defined:
  "p \<in> set (combinations2 bdd_steps) \<Longrightarrow> pair_similarity sv bdd_steps p \<noteq> None"
  using set_combinations2 [of bdd_steps]
  by (cases p) (auto simp: pair_similarity_def py_index_None split: option.splits)

lemma analyze_pair_total:
  assumes "\<forall>x. nli_model sv x \<noteq> None" and "pair_similarity sv bdd_steps p \<noteq> None"
  shows "\<exists>st'. analyze_pair sv bdd_steps p st = Inr st'"
proof -
  from assms(2) obtain s where s: "pair_similarity sv bdd_steps p = Some s" by auto
  have "\<exists>lc calls. relation_gate sv s (fst p) (snd p) (nli_calls st) = (Some lc, calls)"
  proof (cases "s > 6 / 10")
    case True
    from assms(1) have "nli_model sv (fst p @ '' </s> '' @ snd p) \<noteq> None" ..
    then obtain lc where "nli_model sv (fst p @ '' </s> '' @ snd p) = Some lc" by blast
    with True relation_gate_open [of s sv "fst p" "snd p" "nli_calls st"] show ?thesis by simp
  next
    case False
    with relation_gate_closed [of s sv "fst p" "snd p" "nli_calls st"] show ?thesis by simp
  qed
  then obtain lc calls where "relation_gate sv s (fst p) (snd p) (nli_calls st) = (Some lc, calls)"
    by blast
  with s show ?thesis by (cases lc) (simp add: analyze_pair_def)
qed

lemma pairs_loop_total:
  assumes "\<forall>x. nli_model sv x \<noteq> None"
  shows "\<forall>p \<in> set ps. pair_similarity sv bdd_steps p \<noteq> None \<Longrightarrow>
    \<exists>st'. pairs_loop sv bdd_steps ps st = Inr st'"
proof (induction ps arbitrary: st)
  case Nil
  show ?case by simp
next
  case (Cons p ps)
  from analyze_pair_total [OF assms, of bdd_steps p st] Cons.prems
  obtain st1 where a: "analyze_pair sv bdd_steps p st = Inr st1" by auto
  from Cons.IH [of st1] Cons.prems obtain st' where "pairs_loop sv bdd_steps ps st1 = Inr st'"
    by auto
  with a show ?case by simp
qed

text \<open>
  Claim C7. The classifier is called for a pair exactly when the pair's similarity is
  above 0.6, with the two texts joined by the separator; at a similarity of at most 0.6 it
  is not called and the relation is NEUTRAL with confidence 1. Over a whole analysis that
  returns, the calls are the pairs above the gate, in order, and every row of a pair at or
  below the gate has the label NEUTRAL and the rounded confidence of 1; and the analysis
  returns whenever the classifier answers every call.
\<close>

theorem relation_gate_policy:
  "(sim_score > 6 / 10 \<longrightarrow>
      relation_gate sv sim_score s1 s2 calls =
        (nli_model sv (s1 @ '' </s> '' @ s2), calls @ [s1 @ '' </s> '' @ s2])) \<and>
   (sim_score \<le> 6 / 10 \<longrightarrow>
      relation_gate sv sim_score s1 s2 calls = (Some (''NEUTRAL'', 1), calls)) \<and>
   (snd (relation_gate sv sim_score s1 s2 calls) \<noteq> calls \<longleftrightarrow> sim_score > 6 / 10) \<and>
   (analyze_bdd_steps_with_nli sv bdd_features = Inr (st, bdd_steps) \<longrightarrow>
      bdd_steps = extract_steps bdd_features \<and>
      nli_calls st =
        map (\<lambda>p. fst p @ '' </s> '' @ snd p)
          (filter (\<lambda>p. case pair_similarity sv bdd_steps p of None \<Rightarrow> False | Some s \<Rightarrow> s > 6 / 10)
             (combinations2 bdd_steps)) \<and>
      list_all2 (\<lambda>p row. case pair_similarity sv bdd_steps p of
          None \<Rightarrow> False
        | Some s \<Rightarrow>
          row_decision row = decision_logic s (nli_label row) \<and>
          (s \<le> 6 / 10 \<longrightarrow> nli_label row = ''NEUTRAL'' \<and> confidence row = py_round sv (1 * 100) 2) \<and>
          (s > 6 / 10 \<longrightarrow> (\<exists>conf. nli_model sv (fst p @ '' </s> '' @ snd p) = Some (nli_label row, conf) \<and>
               confidence row = py_round sv (conf * 100) 2))) (combinations2 bdd_steps) (results st)) \<and>
   ((\<forall>x. nli_model sv x \<noteq> None) \<longrightarrow>
      (\<exists>st. analyze_bdd_steps_with_nli sv bdd_features = Inr (st, extract_steps bdd_features)))"
proof (intro conjI impI)
  show "relation_gate sv sim_score s1 s2 calls =
        (nli_model sv (s1 @ '' </s> '' @ s2), calls @ [s1 @ '' </s> '' @ s2])"
    if "sim_score > 6 / 10"
    using that by (rule relation_gate_open)
  show "relation_gate sv sim_score s1 s2 calls = (Some (''NEUTRAL'', 1), calls)"
    if "sim_score \<le> 6 / 10"
    using that by (rule relation_gate_closed)
  show "snd (relation_gate sv sim_score s1 s2 calls) \<noteq> calls \<longleftrightarrow> sim_score > 6 / 10"
    by (cases "sim_score > 6 / 10") (simp_all add: relation_gate_open relation_gate_closed)
next
  assume run: "analyze_bdd_steps_with_nli sv bdd_features = Inr (st, bdd_steps)"
  then show steps: "bdd_steps = extract_steps bdd_features"
    by (auto simp: analyze_bdd_steps_with_nli_def Let_def split: sum.splits)
  from run have loop: "pairs_loop sv bdd_steps (combinations2 bdd_steps) \<lparr>results = [], nli_calls = []\<rparr> = Inr st"
    by (auto simp: analyze_bdd_steps_with_nli_def Let_def split: sum.splits)
  from pairs_loop_calls [OF loop]
  show "nli_calls st =
        map (\<lambda>p. fst p @ '' </s> '' @ snd p)
          (filter (\<lambda>p. case pair_similarity sv bdd_steps p of None \<Rightarrow> False | Some s \<Rightarrow> s > 6 / 10)
             (combinations2 bdd_steps))"
    by simp
  from pairs_loop_rows [OF loop]
  show "list_all2 (\<lambda>p row. case pair_similarity sv bdd_steps p of
          None \<Rightarrow> False
        | Some s \<Rightarrow>
          row_decision row = decision_logic s (nli_label row) \<and>
          (s \<le> 6 / 10 \<longrightarrow> nli_label row = ''NEUTRAL'' \<and> confidence row = py_round sv (1 * 100) 2) \<and>
          (s > 6 / 10 \<longrightarrow> (\<exists>conf. nli_model sv (fst p @ '' </s> '' @ snd p) = Some (nli_label row, conf) \<and>
               confidence row = py_round sv (conf * 100) 2))) (combinations2 bdd_steps) (results st)"
    by simp
next
  assume answers: "\<forall>x. nli_model sv x \<noteq> None"
  have "\<forall>p \<in> set (combinations2 (extract_steps bdd_features)).
      pair_similarity sv (extract_steps bdd_features) p \<noteq> None"
    using pair_similarity_defined by blast
  from pairs_loop_total [OF answers this] obtain st where
    "pairs_loop sv (extract_steps bdd_features) (combinations2 (extract_steps bdd_features))
       \<lparr>results = [], nli_calls = []\<rparr> = Inr st" by blast
  then have "analyze_bdd_steps_with_nli sv bdd_features = Inr (st, extract_steps bdd_features)"
    by (simp add: analyze_bdd_steps_with_nli_def Let_def)
  then show "\<exists>st. analyze_bdd_steps_with_nli sv bdd_features = Inr (st, extract_steps bdd_features)" ..
qed

theorem relation_gate_policy_witness:
  "relation_gate example_services (92 / 100) ''Then: form is saved'' ''Then: form gets saved'' [] =
     (Some (''ENTAILMENT'', 97 / 100), [''Then: form is saved </s> Then: form gets saved'']) \<and>
   relation_gate example_services (3 / 10) ''Given: user logged in'' ''When: clicks submit'' [] =
     (Some (''NEUTRAL'', 1), []) \<and>
   (\<forall>x. nli_model example_services x \<noteq> None) \<and>
   (\<exists>st. analyze_bdd_steps_with_nli example_services example_forms =
            Inr (st, extract_steps example_forms) \<and>
         nli_calls st =
           [''Given: user logged in </s> Given: user logged in'',
            ''When: clicks submit </s> Then: form is saved'',
            ''When: clicks submit </s> When: clicks submit'',
            ''Then: form is saved </s> When: clicks submit'',
            ''Then: form is saved </s> Then: form gets saved''] \<and>
         length (results st) = 15)"
proof -
  have hi: "(92 / 100 :: real) > 6 / 10" and lo: "(3 / 10 :: real) \<le> 6 / 10" by simp_all
  have m: "nli_model example_services ''Then: form is saved </s> Then: form gets saved'' =
     Some (''ENTAILMENT'', 97 / 100)"
    by (simp add: example_services_def)
  from relation_gate_policy [of "92 / 100" example_services "''Then: form is saved''"
      "''Then: form gets saved''" "[]"] hi m
  have a: "relation_gate example_services (92 / 100) ''Then: form is saved'' ''Then: form gets saved'' [] =
     (Some (''ENTAILMENT'', 97 / 100), [''Then: form is saved </s> Then: form gets saved''])"
    by simp
  from relation_gate_policy [of "3 / 10" example_services "''Given: user logged in''"
      "''When: clicks submit''" "[]"] lo
  have b: "relation_gate example_services (3 / 10) ''Given: user logged in'' ''When: clicks submit'' [] =
     (Some (''NEUTRAL'', 1), [])"
    by simp
  have answers: "\<forall>x. nli_model example_services x \<noteq> None"
  proof
    fix x
    show "nli_model example_services x \<noteq> None"
      by (cases "x = ''Then: form is saved </s> Then: form gets saved''")
        (simp_all add: example_services_def)
  qed
  from relation_gate_policy [of _ example_services _ _ _ example_forms] answers
  obtain st where run: "analyze_bdd_steps_with_nli example_services example_forms =
            Inr (st, extract_steps example_forms)" by blast
  have calls: "map (\<lambda>p. fst p @ '' </s> '' @ snd p)
          (filter (\<lambda>p. case pair_similarity example_services (extract_steps example_forms) p of
                          None \<Rightarrow> False | Some s \<Rightarrow> s > 6 / 10)
             (combinations2 (extract_steps example_forms))) =
           [''Given: user logged in </s> Given: user logged in'',
            ''When: clicks submit </s> Then: form is saved'',
            ''When: clicks submit </s> When: clicks submit'',
            ''Then: form is saved </s> When: clicks submit'',
            ''Then: form is saved </s> Then: form gets saved'']"
    by code_simp
  have len: "length (combinations2 (extract_steps example_forms)) = 15"
    by code_simp
  from relation_gate_policy [of _ example_services _ _ _ example_forms st "extract_steps example_forms"] run
  have c: "nli_calls st =
        map (\<lambda>p. fst p @ '' </s> '' @ snd p)
          (filter (\<lambda>p. case pair_similarity example_services (extract_steps example_forms) p of
                          None \<Rightarrow> False | Some s \<Rightarrow> s > 6 / 10)
             (combinations2 (extract_steps example_forms)))"
    and r: "list_all2 (\<lambda>p row. case pair_similarity example_services (extract_steps example_forms) p of
          None \<Rightarrow> False
        | Some s \<Rightarrow>
          row_decision row = decision_logic s (nli_label row) \<and>
          (s \<le> 6 / 10 \<longrightarrow> nli_label row = ''NEUTRAL'' \<and> confidence row = py_round example_services (1 * 100) 2) \<and>
          (s > 6 / 10 \<longrightarrow> (\<exists>conf. nli_model example_services (fst p @ '' </s> '' @ snd p) = Some (nli_label row, conf) \<and>
               confidence row = py_round example_services (conf * 100) 2)))
         (combinations2 (extract_steps example_forms)) (results st)"
    by blast+
  from r len have l: "length (results st) = 15"
    by (simp add: list_all2_lengthD [symmetric])
  from c calls have "nli_calls st =
           [''Given: user logged in </s> Given: user logged in'',
            ''When: clicks submit </s> Then: form is saved'',
            ''When: clicks submit </s> When: clicks submit'',
            ''Then: form is saved </s> When: clicks submit'',
            ''Then: form is saved </s> Then: form gets saved'']" by simp
  with run l a b answers show ?thesis by blast
qed

subsection \<open>The decision policy\<close>

lemma analyze_pair_decision:
  assumes "analyze_pair sv bdd_steps p st = Inr st'"
  shows "\<exists>row. results st' = results st @ [row] \<and>
     step_1 row = fst p \<and> step_2 row = snd p \<and>
     (case pair_similarity sv bdd_steps p of
        None \<Rightarrow> False
      | Some s \<Rightarrow> row_decision row = decision_logic s (nli_label row))"
  using analyze_pair_Inr [OF assms] by auto

lemma pairs_loop_decisions:
  "pairs_loop sv bdd_steps ps st = Inr st' \<Longrightarrow>
     \<exists>rows. results st' = results st @ rows \<and>
       list_all2 (\<lambda>p row. step_1 row = fst p \<and> step_2 row = snd p \<and>
          (case pair_similarity sv bdd_steps p of
             None \<Rightarrow> False
           | Some s \<Rightarrow> row_decision row = decision_logic s (nli_label row))) ps rows"
proof (induction ps arbitrary: st)
  case Nil
  then show ?case by simp
next
  case (Cons p ps)
  from Cons.prems obtain st1 where a: "analyze_pair sv bdd_steps p st = Inr st1"
    and l: "pairs_loop sv bdd_steps ps st1 = Inr st'"
    by (auto split: sum.splits)
  from analyze_pair_decision [OF a] obtain row where r: "results st1 = results st @ [row]"
    and ok: "step_1 row = fst p \<and> step_2 row = snd p \<and>
     (case pair_similarity sv bdd_steps p of
        None \<Rightarrow> False
      | Some s \<Rightarrow> row_decision row = decision_logic s (nli_label row))" by blast
  from Cons.IH [OF l] obtain rows where rs: "results st' = results st1 @ rows"
    and all: "list_all2 (\<lambda>p row. step_1 row = fst p \<and> step_2 row = snd p \<and>
          (case pair_similarity sv bdd_steps p of
             None \<Rightarrow> False
           | Some s \<Rightarrow> row_decision row = decision_logic s (nli_label row))) ps rows" by blast
  from r rs have "results st' = results st @ (row # rows)" by simp
  moreover from ok all have "list_all2 (\<lambda>p row. step_1 row = fst p \<and> step_2 row = snd p \<and>
          (case pair_similarity sv bdd_steps p of
             None \<Rightarrow> False
           | Some s \<Rightarrow> row_decision row = decision_logic s (nli_label row))) (p # ps) (row # rows)"
    by simp
  ultimately show ?case by blast
qed

lemma analysis_decisions:
  assumes "analyze_bdd_steps_with_nli sv bdd_features = Inr (final, steps)"
  shows "steps = extract_steps bdd_features \<and>
     list_all2 (\<lambda>p row. step_1 row = fst p \<and> step_2 row = snd p \<and>
          (case pair_similarity sv steps p of
             None \<Rightarrow> False
           | Some s \<Rightarrow> row_decision row = decision_logic s (nli_label row)))
       (combinations2 steps) (results final)"
proof -
  from assms have steps: "steps = extract_steps bdd_features"
    by (auto simp: analyze_bdd_steps_with_nli_def Let_def split: sum.splits)
  from assms have loop: "pairs_loop sv steps (combinations2 steps) \<lparr>results = [], nli_calls = []\<rparr> = Inr final"
    by (auto simp: analyze_bdd_steps_with_nli_def Let_def split: sum.splits)
  from pairs_loop_decisions [OF loop] steps show ?thesis by simp
qed

lemma analysis_returns:
  assumes "\<forall>x. nli_model sv x \<noteq> None"
  shows "\<exists>st. analyze_bdd_steps_with_nli sv bdd_features = Inr (st, extract_steps bdd_features)"
proof -
  have "\<forall>p \<in> set (combinations2 (extract_steps bdd_features)).
      pair_similarity sv (extract_steps bdd_features) p \<noteq> None"
    using pair_similarity_defined by blast
  from pairs_loop_total [OF assms this] obtain st where
    "pairs_loop sv (extract_steps bdd_features) (combinations2 (extract_steps bdd_features))
       \<lparr>results = [], nli_calls = []\<rparr> = Inr st" by blast
  then have "analyze_bdd_steps_with_nli sv bdd_features = Inr (st, extract_steps bdd_features)"
    by (simp add: analyze_bdd_steps_with_nli_def Let_def)
  then show ?thesis ..
qed

text \<open>
  Claim C3. The decision is a function of the similarity score and the relation label
  alone: a score of at most 0.8 gives \<^verbatim>\<open>Not Similar\<close> whatever the label; above 0.8 the
  label ENTAILMENT gives \<^verbatim>\<open>Likely Duplicate\<close>, CONTRADICTION gives \<^verbatim>\<open>Contradictory\<close> and
  every other label gives \<^verbatim>\<open>Similar but Unclear\<close>. In an analysis that returns, every pair
  of steps has its row, in the order of the pairs, and the decision in the row is this
  function at the pair's score and the row's label; the analysis returns whenever the
  classifier answers every call.
\<close>

theorem decision_policy:
  "(sim_score \<le> 8 / 10 \<longrightarrow> decision_logic sim_score label = Not_Similar) \<and>
   (sim_score > 8 / 10 \<and> label = ''ENTAILMENT'' \<longrightarrow> decision_logic sim_score label = Likely_Duplicate) \<and>
   (sim_score > 8 / 10 \<and> label = ''CONTRADICTION'' \<longrightarrow> decision_logic sim_score label = Contradictory) \<and>
   (sim_score > 8 / 10 \<and> label \<noteq> ''ENTAILMENT'' \<and> label \<noteq> ''CONTRADICTION'' \<longrightarrow>
      decision_logic sim_score label = Similar_but_Unclear) \<and>
   (analyze_pair sv bdd_steps p st = Inr st' \<longrightarrow>
      (\<exists>s. pair_similarity sv bdd_steps p = Some s \<and>
           row_decision (last (results st')) = decision_logic s (nli_label (last (results st'))))) \<and>
   (analyze_bdd_steps_with_nli sv bdd_features = Inr (final, steps) \<longrightarrow>
      steps = extract_steps bdd_features \<and>
      list_all2 (\<lambda>p row. step_1 row = fst p \<and> step_2 row = snd p \<and>
          (case pair_similarity sv steps p of
             None \<Rightarrow> False
           | Some s \<Rightarrow> row_decision row = decision_logic s (nli_label row)))
        (combinations2 steps) (results final)) \<and>
   ((\<forall>x. nli_model sv x \<noteq> None) \<longrightarrow>
      (\<exists>final. analyze_bdd_steps_with_nli sv bdd_features = Inr (final, extract_steps bdd_features)))"
proof (intro conjI impI)
  show "decision_logic sim_score label = Not_Similar" if "sim_score \<le> 8 / 10"
    using that by (simp add: decision_logic_def)
  show "decision_logic sim_score label = Likely_Duplicate"
    if "sim_score > 8 / 10 \<and> label = ''ENTAILMENT''"
    using that by (simp add: decision_logic_def)
  show "decision_logic sim_score label = Contradictory"
    if "sim_score > 8 / 10 \<and> label = ''CONTRADICTION''"
    using that by (simp add: decision_logic_def)
  show "decision_logic sim_score label = Similar_but_Unclear"
    if "sim_score > 8 / 10 \<and> label \<noteq> ''ENTAILMENT'' \<and> label \<noteq> ''CONTRADICTION''"
    using that by (simp add: decision_logic_def)
  show "\<exists>s. pair_similarity sv bdd_steps p = Some s \<and>
           row_decision (last (results st')) = decision_logic s (nli_label (last (results st')))"
    if "analyze_pair sv bdd_steps p st = Inr st'"
    using analyze_pair_Inr [OF that] by auto
next
  assume run: "analyze_bdd_steps_with_nli sv bdd_features = Inr (final, steps)"
  note facts = analysis_decisions [OF run]
  from facts show "steps = extract_steps bdd_features" by (rule conjunct1)
  from facts show "list_all2 (\<lambda>p row. step_1 row = fst p \<and> step_2 row = snd p \<and>
          (case pair_similarity sv steps p of
             None \<Rightarrow> False
           | Some s \<Rightarrow> row_decision row = decision_logic s (nli_label row)))
        (combinations2 steps) (results final)"
    by (rule conjunct2)
next
  assume "\<forall>x. nli_model sv x \<noteq> None"
  then show "\<exists>final. analyze_bdd_steps_with_nli sv bdd_features = Inr (final, extract_steps bdd_features)"
    by (rule analysis_returns)
qed

theorem decision_policy_witness:
  "decision_logic (5 / 10) ''ENTAILMENT'' = Not_Similar \<and>
   decision_logic (92 / 100) ''ENTAILMENT'' = Likely_Duplicate \<and>
   decision_logic (92 / 100) ''CONTRADICTION'' = Contradictory \<and>
   decision_logic (92 / 100) ''NEUTRAL'' = Similar_but_Unclear \<and>
   analyze_pair example_services (extract_steps example_forms)
       (''Then: form is saved'', ''Then: form gets saved'') \<lparr>results = [], nli_calls = []\<rparr> =
     Inr \<lparr>results = [\<lparr>step_1 = ''Then: form is saved'', step_2 = ''Then: form gets saved'',
                       similarity = 92 / 100, nli_label = ''ENTAILMENT'', confidence = 97,
                       row_decision = Likely_Duplicate\<rparr>],
          nli_calls = [''Then: form is saved </s> Then: form gets saved'']\<rparr> \<and>
   pair_similarity example_services (extract_steps example_forms)
       (''Then: form is saved'', ''Then: form gets saved'') = Some (92 / 100) \<and>
   (\<forall>x. nli_model example_services x \<noteq> None) \<and>
   (\<exists>final. analyze_bdd_steps_with_nli example_services example_forms =
              Inr (final, extract_steps example_forms) \<and>
            length (results final) = 15 \<and>
            step_1 (results final ! 11) = ''Then: form is saved'' \<and>
            step_2 (results final ! 11) = ''Then: form gets saved'' \<and>
            row_decision (results final ! 11) =
              decision_logic (92 / 100) (nli_label (results final ! 11)))"
proof -
  let ?steps = "extract_steps example_forms"
  let ?p = "(''Then: form is saved'', ''Then: form gets saved'')"
  have a: "decision_logic (5 / 10) ''ENTAILMENT'' = Not_Similar"
    using decision_policy [of "5 / 10" "''ENTAILMENT''"] by simp
  have b: "decision_logic (92 / 100) ''ENTAILMENT'' = Likely_Duplicate"
    using decision_policy [of "92 / 100" "''ENTAILMENT''"] by simp
  have c: "decision_logic (92 / 100) ''CONTRADICTION'' = Contradictory"
    using decision_policy [of "92 / 100" "''CONTRADICTION''"] by simp
  have d: "decision_logic (92 / 100) ''NEUTRAL'' = Similar_but_Unclear"
    using decision_policy [of "92 / 100" "''NEUTRAL''"] by simp
  have run: "analyze_pair example_services ?steps ?p \<lparr>results = [], nli_calls = []\<rparr> =
     Inr \<lparr>results = [\<lparr>step_1 = ''Then: form is saved'', step_2 = ''Then: form gets saved'',
                       similarity = 92 / 100, nli_label = ''ENTAILMENT'', confidence = 97,
                       row_decision = Likely_Duplicate\<rparr>],
          nli_calls = [''Then: form is saved </s> Then: form gets saved'']\<rparr>"
    by code_simp
  have s: "pair_similarity example_services ?steps ?p = Some (92 / 100)"
    by code_simp
  from decision_policy [where sv = example_services and bdd_steps = ?steps and p = ?p
      and st = "\<lparr>results = [], nli_calls = []\<rparr>"] run
  have "\<exists>s. pair_similarity example_services ?steps ?p = Some s" by blast
  have answers: "\<forall>x. nli_model example_services x \<noteq> None"
  proof
    fix x
    show "nli_model example_services x \<noteq> None"
      by (cases "x = ''Then: form is saved </s> Then: form gets saved''")
        (simp_all add: example_services_def)
  qed
  from decision_policy [where sv = example_services and bdd_features = example_forms] answers
  obtain final where fin: "analyze_bdd_steps_with_nli example_services example_forms =
      Inr (final, ?steps)" by blast
  from decision_policy [where sv = example_services and bdd_features = example_forms
      and final = final and steps = ?steps] fin
  have rows: "list_all2 (\<lambda>p row. step_1 row = fst p \<and> step_2 row = snd p \<and>
          (case pair_similarity example_services ?steps p of
             None \<Rightarrow> False
           | Some s \<Rightarrow> row_decision row = decision_logic s (nli_label row)))
        (combinations2 ?steps) (results final)"
    by blast
  have len: "length (combinations2 ?steps) = 15"
    by code_simp
  have at: "combinations2 ?steps ! 11 = ?p"
    by code_simp
  from rows len have l: "length (results final) = 15"
    by (simp add: list_all2_lengthD [symmetric])
  from list_all2_nthD [OF rows, of 11] len at s
  have r: "step_1 (results final ! 11) = ''Then: form is saved'' \<and>
      step_2 (results final ! 11) = ''Then: form gets saved'' \<and>
      row_decision (results final ! 11) = decision_logic (92 / 100) (nli_label (results final ! 11))"
    by simp
  from a b c d run s answers fin l r show ?thesis by blast
qed

section \<open>Properties of the batch reducer\<close>

subsection \<open>Batches that fail\<close>

lemma process_batch_call_raises:
  "generate_content sv batch_num batch = None \<Longrightarrow>
     process_batch sv batch_num batch st =
       st\<lparr>all_unique_features := all_unique_features st @ batch,
          console := console st @ [Error_processing batch_num]\<rparr>"
  by (simp add: process_batch_def keep_batch_on_error_def)

lemma process_batch_empty:
  "generate_content sv batch_num batch = Some r \<Longrightarrow> \<not> truthy (parsed r) \<Longrightarrow> text_out_of r = [] \<Longrightarrow>
     process_batch sv batch_num batch st =
       st\<lparr>all_unique_features := all_unique_features st @ batch,
          console := console st @ [Empty_response batch_num]\<rparr>"
  by (simp add: process_batch_def)

lemma process_batch_unparseable:
  "generate_content sv batch_num batch = Some r \<Longrightarrow> \<not> truthy (parsed r) \<Longrightarrow> text_out_of r \<noteq> [] \<Longrightarrow>
   json_loads sv (py_strip_chars ''```'' (py_strip_chars ''```json'' (py_strip (text_out_of r)))) = None \<Longrightarrow>
     process_batch sv batch_num batch st =
       st\<lparr>all_unique_features := all_unique_features st @ batch,
          console := console st @ [Error_processing batch_num]\<rparr>"
  by (simp add: process_batch_def keep_batch_on_error_def)

lemma batch_loop_all_raise:
  assumes "\<forall>n batch. generate_content sv n batch = None"
  shows "all_unique_features (batch_loop sv fs b n starts st) =
           all_unique_features st @ concat (map (\<lambda>i. take b (drop i fs)) starts) \<and>
         llm_removed_count (batch_loop sv fs b n starts st) = llm_removed_count st \<and>
         console (batch_loop sv fs b n starts st) =
           console st @ map Error_processing [n..<n + length starts]"
proof (induction starts arbitrary: n st)
  case Nil
  show ?case by simp
next
  case (Cons i starts)
  from assms have "generate_content sv n (take b (drop i fs)) = None" by simp
  from process_batch_call_raises [OF this]
  have p: "process_batch sv n (take b (drop i fs)) st =
       st\<lparr>all_unique_features := all_unique_features st @ take b (drop i fs),
          console := console st @ [Error_processing n]\<rparr>" .
  have "n < n + length (i # starts)" by simp
  from upt_conv_Cons [OF this]
  have r: "[n..<n + length (i # starts)] = n # [Suc n..<Suc n + length starts]" by simp
  from Cons.IH [of "Suc n"] p show ?case
    unfolding r by simp
qed

lemma concat_chunks:
  "concat (map (\<lambda>k. take b (drop (k * b) xs)) [0..<m]) = take (m * b) xs"
proof (induction m)
  case 0
  show ?case by simp
next
  case (Suc m)
  have "take (m * b) xs @ take b (drop (m * b) xs) = take (m * b + b) xs"
    by (simp add: take_add)
  with Suc show ?case by (simp add: add.commute)
qed

lemma chunks_cover:
  assumes "0 < b"
  shows "length xs \<le> ((length xs + b - 1) div b) * b"
proof -
  have "length xs + b - 1 = ((length xs + b - 1) div b) * b + (length xs + b - 1) mod b"
    by simp
  moreover have "(length xs + b - 1) mod b < b"
    using assms by simp
  ultimately show ?thesis by linarith
qed

lemma concat_batches:
  assumes "0 < b"
  shows "concat (map (\<lambda>i. take b (drop i xs)) (batch_starts (length xs) b)) = xs"
proof -
  have "concat (map (\<lambda>i. take b (drop i xs)) (batch_starts (length xs) b)) =
        concat (map (\<lambda>k. take b (drop (k * b) xs)) [0..<(length xs + b - 1) div b])"
    by (simp add: batch_starts_def comp_def)
  also have "\<dots> = take (((length xs + b - 1) div b) * b) xs"
    by (rule concat_chunks)
  also have "\<dots> = xs"
    using chunks_cover [OF assms, of xs] by simp
  finally show ?thesis .
qed

lemma clean_result_shape:
  assumes "clean_duplicates_with_llm sv d batch_size = Inr (res, st)"
    and "json_features d \<noteq> None" and "json_features d \<noteq> Some []"
  shows "res = \<lparr>json_features = Some (all_unique_features st), other_keys = []\<rparr>"
proof -
  from assms(2,3) obtain fs where fs: "json_features d = Some fs" "fs \<noteq> []" by auto
  with assms(1) show ?thesis
    by (auto simp: clean_duplicates_with_llm_def Let_def split: if_splits)
qed

lemma clean_empty_input:
  assumes "json_features d = None \<or> json_features d = Some []"
  shows "clean_duplicates_with_llm sv d batch_size = Inr (d, init_llm_state)"
  using assms by (auto simp: clean_duplicates_with_llm_def)

lemma clean_all_raise:
  assumes "\<forall>n batch. generate_content sv n batch = None" and "0 < batch_size"
    and "json_features d = Some fs" and "fs \<noteq> []"
  shows "\<exists>st. clean_duplicates_with_llm sv d batch_size =
            Inr (\<lparr>json_features = Some fs, other_keys = []\<rparr>, st) \<and>
          all_unique_features st = fs \<and> llm_removed_count st = 0"
proof -
  let ?b = "nat batch_size"
  let ?st = "batch_loop sv fs ?b 1 (batch_starts (length fs) ?b) init_llm_state"
  from assms(2) have b: "0 < ?b" by simp
  from batch_loop_all_raise [OF assms(1), of fs ?b 1 "batch_starts (length fs) ?b" init_llm_state]
    concat_batches [OF b, of fs]
  have u: "all_unique_features ?st = fs" and c: "llm_removed_count ?st = 0"
    by (simp_all add: init_llm_state_def)
  from assms(2,3,4) have "clean_duplicates_with_llm sv d batch_size =
      Inr (\<lparr>json_features = Some (all_unique_features ?st), other_keys = []\<rparr>, ?st)"
    by (simp add: clean_duplicates_with_llm_def Let_def)
  with u c show ?thesis by simp
qed

text \<open>What a batch adds to the state does not depend on the state it is added to.\<close>

lemma keep_batch_on_error_adds:
  "keep_batch_on_error n batch st =
     st\<lparr>all_unique_features := all_unique_features st @ all_unique_features (keep_batch_on_error n batch init_llm_state),
        llm_removed_count := llm_removed_count st + llm_removed_count (keep_batch_on_error n batch init_llm_state),
        console := console st @ console (keep_batch_on_error n batch init_llm_state)\<rparr>"
  by (simp add: keep_batch_on_error_def init_llm_state_def)

lemma use_result_adds:
  "use_result n batch result st =
     st\<lparr>all_unique_features := all_unique_features st @ all_unique_features (use_result n batch result init_llm_state),
        llm_removed_count := llm_removed_count st + llm_removed_count (use_result n batch result init_llm_state),
        console := console st @ console (use_result n batch result init_llm_state)\<rparr>"
proof (cases result)
  case (PDict d)
  show ?thesis
  proof (cases "py_iter (dict_get d ''features'' (PList []))")
    case None
    with PDict show ?thesis
      by (simp add: use_result_def keep_batch_on_error_def init_llm_state_def)
  next
    case (Some ks)
    show ?thesis
    proof (cases "py_len (dict_get d ''removed'' (PList []))")
      case None
      with PDict Some show ?thesis
        by (simp add: use_result_def keep_batch_on_error_def init_llm_state_def)
    next
      case (Some m)
      with PDict \<open>py_iter (dict_get d ''features'' (PList [])) = Some ks\<close> show ?thesis
        by (simp add: use_result_def keep_batch_on_error_def init_llm_state_def Let_def)
    qed
  qed
qed (simp_all add: use_result_def keep_batch_on_error_def init_llm_state_def)

lemma process_batch_adds:
  "process_batch sv n batch st =
     st\<lparr>all_unique_features := all_unique_features st @ all_unique_features (process_batch sv n batch init_llm_state),
        llm_removed_count := llm_removed_count st + llm_removed_count (process_batch sv n batch init_llm_state),
        console := console st @ console (process_batch sv n batch init_llm_state)\<rparr>"
proof (cases "generate_content sv n batch")
  case None
  then show ?thesis
    by (simp add: process_batch_def keep_batch_on_error_def init_llm_state_def)
next
  case (Some r)
  show ?thesis
  proof (cases "truthy (parsed r)")
    case True
    with Some use_result_adds [of n batch "parsed r" st] show ?thesis
      by (simp add: process_batch_def)
  next
    case False
    show ?thesis
    proof (cases "text_out_of r = []")
      case True
      with Some False show ?thesis
        by (simp add: process_batch_def init_llm_state_def)
    next
      case nonempty: False
      show ?thesis
      proof (cases "json_loads sv (py_strip_chars ''```'' (py_strip_chars ''```json'' (py_strip (text_out_of r))))")
        case None
        with Some False nonempty show ?thesis
          by (simp add: process_batch_def keep_batch_on_error_def init_llm_state_def)
      next
        case (Some result)
        with \<open>generate_content sv n batch = Some r\<close> False nonempty
          use_result_adds [of n batch result st] show ?thesis
          by (simp add: process_batch_def)
      qed
    qed
  qed
qed

lemma batch_loop_adds:
  "all_unique_features (batch_loop sv fs b n starts st) =
     all_unique_features st @
     concat (map (\<lambda>(num, i). all_unique_features (process_batch sv num (take b (drop i fs)) init_llm_state))
               (zip [n..<n + length starts] starts)) \<and>
   llm_removed_count (batch_loop sv fs b n starts st) =
     llm_removed_count st +
     sum_list (map (\<lambda>(num, i). llm_removed_count (process_batch sv num (take b (drop i fs)) init_llm_state))
                 (zip [n..<n + length starts] starts)) \<and>
   console (batch_loop sv fs b n starts st) =
     console st @
     concat (map (\<lambda>(num, i). console (process_batch sv num (take b (drop i fs)) init_llm_state))
               (zip [n..<n + length starts] starts))"
proof (induction starts arbitrary: n st)
  case Nil
  show ?case by simp
next
  case (Cons i starts)
  have "n < n + length (i # starts)" by simp
  from upt_conv_Cons [OF this]
  have r: "[n..<n + length (i # starts)] = n # [Suc n..<Suc n + length starts]" by simp
  note p = process_batch_adds [of sv n "take b (drop i fs)" st]
  have u: "all_unique_features (process_batch sv n (take b (drop i fs)) st) =
      all_unique_features st @ all_unique_features (process_batch sv n (take b (drop i fs)) init_llm_state)"
    by (subst p) simp
  have c: "llm_removed_count (process_batch sv n (take b (drop i fs)) st) =
      llm_removed_count st + llm_removed_count (process_batch sv n (take b (drop i fs)) init_llm_state)"
    by (subst p) simp
  have w: "console (process_batch sv n (take b (drop i fs)) st) =
      console st @ console (process_batch sv n (take b (drop i fs)) init_llm_state)"
    by (subst p) simp
  from Cons.IH [of "Suc n" "process_batch sv n (take b (drop i fs)) st"] u c w
  show ?case unfolding r by simp
qed

lemma clean_run_adds:
  assumes run: "clean_duplicates_with_llm sv d batch_size = Inr (res, st')"
    and fs: "json_features d = Some fs" "fs \<noteq> []" and pos: "0 < batch_size"
  shows "(let b = nat batch_size;
             starts = batch_starts (length fs) b;
             numbered = zip [1..<1 + length starts] starts
         in concat (map (\<lambda>i. take b (drop i fs)) starts) = fs \<and>
            all_unique_features st' =
              concat (map (\<lambda>(num, i). all_unique_features (process_batch sv num (take b (drop i fs)) init_llm_state)) numbered) \<and>
            llm_removed_count st' =
              sum_list (map (\<lambda>(num, i). llm_removed_count (process_batch sv num (take b (drop i fs)) init_llm_state)) numbered) \<and>
            console st' =
              concat (map (\<lambda>(num, i). console (process_batch sv num (take b (drop i fs)) init_llm_state)) numbered))"
proof -
  let ?b = "nat batch_size"
  let ?starts = "batch_starts (length fs) ?b"
  from pos have b: "0 < ?b" by simp
  from run fs pos have st': "st' = batch_loop sv fs ?b 1 ?starts init_llm_state"
    by (simp add: clean_duplicates_with_llm_def Let_def)
  from batch_loop_adds [of sv fs ?b 1 ?starts init_llm_state] concat_batches [OF b, of fs]
  show ?thesis
    unfolding st' Let_def by (simp add: init_llm_state_def)
qed

lemma clean_returns:
  assumes "json_features d = Some fs" "fs \<noteq> []" "batch_size \<noteq> 0"
  shows "\<exists>res st'. clean_duplicates_with_llm sv d batch_size = Inr (res, st')"
  using assms by (simp add: clean_duplicates_with_llm_def Let_def)

text \<open>
  The returned dict holds the kept list and nothing else. With the two form scenarios in
  one batch, the run whose call raises and the run whose service keeps every scenario
  return the same value; only the printed warning tells them apart.
\<close>

theorem no_batch_marker_counterexample:
  "generate_content failing_service 1 (map py_of_scenario example_forms) = None \<and>
   clean_duplicates_with_llm failing_service example_forms_json 50 =
     Inr (example_forms_json,
          \<lparr>all_unique_features = map py_of_scenario example_forms, llm_removed_count = 0,
             console = [Error_processing 1]\<rparr>) \<and>
   clean_duplicates_with_llm keeping_service example_forms_json 50 =
     Inr (example_forms_json,
          \<lparr>all_unique_features = map py_of_scenario example_forms, llm_removed_count = 0,
             console = []\<rparr>)"
  by code_simp

text \<open>
  Claim C6, amended. When the call for a batch raises, or the response has no parsed value
  and an empty text, or its text is rejected by \<^verbatim>\<open>json.loads\<close>, the scenarios of the
  batch are appended to the kept list unchanged and in order, the removed count stays as
  it was, and a warning with the batch number is printed. The returned dict has the single
  key \<^verbatim>\<open>features\<close> and carries no marker for the batch. In every run on a non-empty list
  with a positive batch size the batches chain to the input, and the kept list, the
  removed count and the warnings are made of what each batch adds, batch after batch, so
  that the scenarios of a failed batch stand in the output between those of the batches
  around it. Such a run returns; and when every call raises, the reducer returns all the
  input scenarios and counts none as removed.
\<close>

theorem fail_open_batch:
  "(generate_content sv batch_num batch = None \<longrightarrow>
      process_batch sv batch_num batch st =
        st\<lparr>all_unique_features := all_unique_features st @ batch,
           console := console st @ [Error_processing batch_num]\<rparr>) \<and>
   (generate_content sv batch_num batch = Some r \<and> \<not> truthy (parsed r) \<and> text_out_of r = [] \<longrightarrow>
      process_batch sv batch_num batch st =
        st\<lparr>all_unique_features := all_unique_features st @ batch,
           console := console st @ [Empty_response batch_num]\<rparr>) \<and>
   (generate_content sv batch_num batch = Some r \<and> \<not> truthy (parsed r) \<and> text_out_of r \<noteq> [] \<and>
    json_loads sv (py_strip_chars ''```'' (py_strip_chars ''```json'' (py_strip (text_out_of r)))) = None \<longrightarrow>
      process_batch sv batch_num batch st =
        st\<lparr>all_unique_features := all_unique_features st @ batch,
           console := console st @ [Error_processing batch_num]\<rparr>) \<and>
   (clean_duplicates_with_llm sv d batch_size = Inr (res, st') \<and>
    json_features d \<noteq> None \<and> json_features d \<noteq> Some [] \<longrightarrow>
      res = \<lparr>json_features = Some (all_unique_features st'), other_keys = []\<rparr>) \<and>
   (clean_duplicates_with_llm sv d batch_size = Inr (res, st') \<and>
    json_features d = Some fs \<and> fs \<noteq> [] \<and> 0 < batch_size \<longrightarrow>
      (let b = nat batch_size;
           starts = batch_starts (length fs) b;
           numbered = zip [1..<1 + length starts] starts
       in concat (map (\<lambda>i. take b (drop i fs)) starts) = fs \<and>
          all_unique_features st' =
            concat (map (\<lambda>(num, i). all_unique_features (process_batch sv num (take b (drop i fs)) init_llm_state)) numbered) \<and>
          llm_removed_count st' =
            sum_list (map (\<lambda>(num, i). llm_removed_count (process_batch sv num (take b (drop i fs)) init_llm_state)) numbered) \<and>
          console st' =
            concat (map (\<lambda>(num, i). console (process_batch sv num (take b (drop i fs)) init_llm_state)) numbered))) \<and>
   (json_features d = Some fs \<and> fs \<noteq> [] \<and> batch_size \<noteq> 0 \<longrightarrow>
      (\<exists>res st'. clean_duplicates_with_llm sv d batch_size = Inr (res, st'))) \<and>
   ((\<forall>n b. generate_content sv n b = None) \<and> 0 < batch_size \<and>
    json_features d = Some fs \<and> fs \<noteq> [] \<longrightarrow>
      (\<exists>st. clean_duplicates_with_llm sv d batch_size =
              Inr (\<lparr>json_features = Some fs, other_keys = []\<rparr>, st) \<and>
            all_unique_features st = fs \<and> llm_removed_count st = 0))"
proof (intro conjI impI)
  show "process_batch sv batch_num batch st =
        st\<lparr>all_unique_features := all_unique_features st @ batch,
           console := console st @ [Error_processing batch_num]\<rparr>"
    if "generate_content sv batch_num batch = None"
    using that by (rule process_batch_call_raises)
  show "process_batch sv batch_num batch st =
        st\<lparr>all_unique_features := all_unique_features st @ batch,
           console := console st @ [Empty_response batch_num]\<rparr>"
    if "generate_content sv batch_num batch = Some r \<and> \<not> truthy (parsed r) \<and> text_out_of r = []"
    using that by (simp add: process_batch_empty)
  show "process_batch sv batch_num batch st =
        st\<lparr>all_unique_features := all_unique_features st @ batch,
           console := console st @ [Error_processing batch_num]\<rparr>"
    if "generate_content sv batch_num batch = Some r \<and> \<not> truthy (parsed r) \<and> text_out_of r \<noteq> [] \<and>
      json_loads sv (py_strip_chars ''```'' (py_strip_chars ''```json'' (py_strip (text_out_of r)))) = None"
    using that by (simp add: process_batch_unparseable)
  show "res = \<lparr>json_features = Some (all_unique_features st'), other_keys = []\<rparr>"
    if "clean_duplicates_with_llm sv d batch_size = Inr (res, st') \<and>
      json_features d \<noteq> None \<and> json_features d \<noteq> Some []"
    using that clean_result_shape by blast
  show "(let b = nat batch_size;
           starts = batch_starts (length fs) b;
           numbered = zip [1..<1 + length starts] starts
       in concat (map (\<lambda>i. take b (drop i fs)) starts) = fs \<and>
          all_unique_features st' =
            concat (map (\<lambda>(num, i). all_unique_features (process_batch sv num (take b (drop i fs)) init_llm_state)) numbered) \<and>
          llm_removed_count st' =
            sum_list (map (\<lambda>(num, i). llm_removed_count (process_batch sv num (take b (drop i fs)) init_llm_state)) numbered) \<and>
          console st' =
            concat (map (\<lambda>(num, i). console (process_batch sv num (take b (drop i fs)) init_llm_state)) numbered))"
    if "clean_duplicates_with_llm sv d batch_size = Inr (res, st') \<and>
      json_features d = Some fs \<and> fs \<noteq> [] \<and> 0 < batch_size"
    using that clean_run_adds by blast
  show "\<exists>res st'. clean_duplicates_with_llm sv d batch_size = Inr (res, st')"
    if "json_features d = Some fs \<and> fs \<noteq> [] \<and> batch_size \<noteq> 0"
    using that clean_returns by blast
  show "\<exists>st. clean_duplicates_with_llm sv d batch_size =
              Inr (\<lparr>json_features = Some fs, other_keys = []\<rparr>, st) \<and>
            all_unique_features st = fs \<and> llm_removed_count st = 0"
    if "(\<forall>n b. generate_content sv n b = None) \<and> 0 < batch_size \<and>
      json_features d = Some fs \<and> fs \<noteq> []"
    using that clean_all_raise by blast
qed

theorem fail_open_batch_witness:
  "generate_content failing_service 1 (map py_of_scenario example_forms) = None \<and>
   process_batch failing_service 1 (map py_of_scenario example_forms) init_llm_state =
     \<lparr>all_unique_features = map py_of_scenario example_forms, llm_removed_count = 0,
        console = [Error_processing 1]\<rparr> \<and>
   process_batch silent_service 1 (map py_of_scenario example_forms) init_llm_state =
     \<lparr>all_unique_features = map py_of_scenario example_forms, llm_removed_count = 0,
        console = [Empty_response 1]\<rparr> \<and>
   process_batch garbled_service 1 (map py_of_scenario example_forms) init_llm_state =
     \<lparr>all_unique_features = map py_of_scenario example_forms, llm_removed_count = 0,
        console = [Error_processing 1]\<rparr> \<and>
   (\<exists>st. clean_duplicates_with_llm failing_service example_forms_json 50 =
           Inr (\<lparr>json_features = Some (map py_of_scenario example_forms), other_keys = []\<rparr>, st) \<and>
         all_unique_features st = map py_of_scenario example_forms \<and> llm_removed_count st = 0) \<and>
   clean_duplicates_with_llm mixed_service example_orders_json 2 =
     Inr (\<lparr>json_features = Some (take 3 (map py_of_scenario example_orders)), other_keys = []\<rparr>,
          \<lparr>all_unique_features = take 3 (map py_of_scenario example_orders), llm_removed_count = 1,
             console = [Error_processing 1]\<rparr>) \<and>
   take 3 (map py_of_scenario example_orders) =
     all_unique_features (process_batch mixed_service 1 (take 2 (map py_of_scenario example_orders)) init_llm_state) @
     all_unique_features (process_batch mixed_service 2 (drop 2 (map py_of_scenario example_orders)) init_llm_state) \<and>
   all_unique_features (process_batch mixed_service 1 (take 2 (map py_of_scenario example_orders)) init_llm_state) =
     take 2 (map py_of_scenario example_orders)"
proof -
  let ?batch = "map py_of_scenario example_forms"
  let ?orders = "map py_of_scenario example_orders"
  let ?silent = "\<lparr>candidate_text = Some ''  '', response_text = None, parsed = PNone\<rparr>"
  let ?garbled = "\<lparr>candidate_text = Some ''I kept them all'', response_text = None, parsed = PNone\<rparr>"
  let ?res = "\<lparr>json_features = Some (take 3 ?orders), other_keys = []\<rparr>"
  let ?fin = "\<lparr>all_unique_features = take 3 ?orders, llm_removed_count = 1,
             console = [Error_processing 1]\<rparr>"
  have f: "generate_content failing_service 1 ?batch = None"
    by (simp add: failing_service_def)
  have all: "\<forall>n b. generate_content failing_service n b = None"
    by (simp add: failing_service_def)
  have s: "generate_content silent_service 1 ?batch = Some ?silent \<and> \<not> truthy (parsed ?silent) \<and>
      text_out_of ?silent = []"
    by code_simp
  have g: "generate_content garbled_service 1 ?batch = Some ?garbled \<and> \<not> truthy (parsed ?garbled) \<and>
      text_out_of ?garbled \<noteq> [] \<and>
      json_loads garbled_service
        (py_strip_chars ''```'' (py_strip_chars ''```json'' (py_strip (text_out_of ?garbled)))) = None"
    by code_simp
  have ne: "json_features example_forms_json = Some ?batch \<and> ?batch \<noteq> []"
    by (simp add: example_forms_json_def example_forms_def)
  from fail_open_batch [where sv = failing_service and batch_num = 1 and batch = ?batch
      and st = init_llm_state] f
  have a: "process_batch failing_service 1 ?batch init_llm_state =
     \<lparr>all_unique_features = ?batch, llm_removed_count = 0, console = [Error_processing 1]\<rparr>"
    by (simp add: init_llm_state_def)
  from fail_open_batch [where sv = silent_service and batch_num = 1 and batch = ?batch
      and st = init_llm_state and r = ?silent] s
  have b: "process_batch silent_service 1 ?batch init_llm_state =
     \<lparr>all_unique_features = ?batch, llm_removed_count = 0, console = [Empty_response 1]\<rparr>"
    by (simp add: init_llm_state_def)
  from fail_open_batch [where sv = garbled_service and batch_num = 1 and batch = ?batch
      and st = init_llm_state and r = ?garbled] g
  have c: "process_batch garbled_service 1 ?batch init_llm_state =
     \<lparr>all_unique_features = ?batch, llm_removed_count = 0, console = [Error_processing 1]\<rparr>"
    by (simp add: init_llm_state_def)
  from fail_open_batch [where sv = failing_service and d = example_forms_json and batch_size = 50
      and fs = ?batch] all ne
  have d: "\<exists>st. clean_duplicates_with_llm failing_service example_forms_json 50 =
           Inr (\<lparr>json_features = Some ?batch, other_keys = []\<rparr>, st) \<and>
         all_unique_features st = ?batch \<and> llm_removed_count st = 0"
    by simp
  have mixed: "clean_duplicates_with_llm mixed_service example_orders_json 2 = Inr (?res, ?fin)"
    by code_simp
  have one: "generate_content mixed_service 1 (take 2 ?orders) = None"
    by (simp add: mixed_service_def)
  have ofs: "json_features example_orders_json = Some ?orders \<and> ?orders \<noteq> []"
    by (simp add: example_orders_json_def example_orders_def)
  have starts: "batch_starts (length ?orders) (nat 2) = [0, 2]"
    by code_simp
  from fail_open_batch [where sv = mixed_service and d = example_orders_json and batch_size = 2
      and fs = ?orders and res = ?res and st' = ?fin] mixed ofs
  have "all_unique_features ?fin =
      concat (map (\<lambda>(num, i). all_unique_features (process_batch mixed_service num (take (nat 2) (drop i ?orders)) init_llm_state))
         (zip [1..<1 + length (batch_starts (length ?orders) (nat 2))] (batch_starts (length ?orders) (nat 2))))"
    unfolding Let_def by simp
  then have e: "take 3 ?orders =
     all_unique_features (process_batch mixed_service 1 (take 2 ?orders) init_llm_state) @
     all_unique_features (process_batch mixed_service 2 (drop 2 ?orders) init_llm_state)"
    unfolding starts by (simp add: upt_rec example_orders_def eval_nat_numeral)
  from fail_open_batch [where sv = mixed_service and batch_num = 1 and batch = "take 2 ?orders"
      and st = init_llm_state] one
  have h: "all_unique_features (process_batch mixed_service 1 (take 2 ?orders) init_llm_state) =
     take 2 ?orders"
    by (simp add: init_llm_state_def)
  from f a b c d mixed e h show ?thesis by blast
qed

subsection \<open>The shapes of the two strategies\<close>

text \<open>
  On the two form scenarios the cosine reducer returns a list and the batch reducer
  returns a dict.
\<close>

theorem strategy_shapes_counterexample:
  "\<not> isl (remove_duplicates_cosine_90 example_forms example_forms_sim (9 / 10)) \<and>
   py_type (py_of_features (projr (remove_duplicates_cosine_90 example_forms example_forms_sim (9 / 10)))) = ''list'' \<and>
   \<not> isl (clean_duplicates_with_llm keeping_service example_forms_json 50) \<and>
   py_type (py_of_bdd_json (fst (projr (clean_duplicates_with_llm keeping_service example_forms_json 50)))) = ''dict''"
  by code_simp

text \<open>
  Claim C9, amended. The cosine reducer takes the list of scenario records and, where it
  returns (as it does on every non-empty list), returns a list, made of records of its
  input. The batch reducer takes the dict that holds the list under \<^verbatim>\<open>features\<close> and returns
  a dict: for a non-empty list, the dict with the single key \<^verbatim>\<open>features\<close> holding the kept
  list; for a missing or empty list, its argument as it is.
\<close>

theorem strategy_shapes:
  "(remove_duplicates_cosine_90 F sim t = Inr kept \<longrightarrow>
      py_type (py_of_features kept) = ''list'' \<and> set kept \<subseteq> set F) \<and>
   (F \<noteq> [] \<longrightarrow> (\<exists>kept. remove_duplicates_cosine_90 F sim t = Inr kept)) \<and>
   (clean_duplicates_with_llm sv d batch_size = Inr (res, st) \<longrightarrow>
      py_type (py_of_bdd_json res) = ''dict'' \<and>
      (json_features d \<noteq> None \<and> json_features d \<noteq> Some [] \<longrightarrow>
         py_of_bdd_json res = PDict [(''features'', PList (all_unique_features st))]) \<and>
      (json_features d = None \<or> json_features d = Some [] \<longrightarrow> res = d))"
proof (intro conjI impI)
  assume r: "remove_duplicates_cosine_90 F sim t = Inr kept"
  show "py_type (py_of_features kept) = ''list''"
    by (simp add: py_of_features_def)
  from reducer_result [OF r] show "set kept \<subseteq> set F"
    by (auto simp: unique_final_set)
next
  assume "F \<noteq> []"
  from reducer_returns [OF this, of sim t]
  show "\<exists>kept. remove_duplicates_cosine_90 F sim t = Inr kept" ..
next
  assume run: "clean_duplicates_with_llm sv d batch_size = Inr (res, st)"
  show "py_type (py_of_bdd_json res) = ''dict''"
    by (simp add: py_of_bdd_json_def)
  show "py_of_bdd_json res = PDict [(''features'', PList (all_unique_features st))]"
    if "json_features d \<noteq> None \<and> json_features d \<noteq> Some []"
    using clean_result_shape [OF run] that by (simp add: py_of_bdd_json_def)
  show "res = d" if "json_features d = None \<or> json_features d = Some []"
    using clean_empty_input [OF that, of sv batch_size] run by simp
qed

theorem strategy_shapes_witness:
  "example_forms \<noteq> [] \<and>
   remove_duplicates_cosine_90 example_forms example_forms_sim (9 / 10) = Inr [example_forms ! 0] \<and>
   set [example_forms ! 0] \<subseteq> set example_forms \<and>
   clean_duplicates_with_llm keeping_service example_forms_json 50 =
     Inr (example_forms_json,
          \<lparr>all_unique_features = map py_of_scenario example_forms, llm_removed_count = 0,
             console = []\<rparr>) \<and>
   py_of_bdd_json example_forms_json = PDict [(''features'', PList (map py_of_scenario example_forms))] \<and>
   clean_duplicates_with_llm keeping_service \<lparr>json_features = Some [], other_keys = [(''title'', PStr ''login'')]\<rparr> 50 =
     Inr (\<lparr>json_features = Some [], other_keys = [(''title'', PStr ''login'')]\<rparr>, init_llm_state)"
proof -
  let ?st = "\<lparr>all_unique_features = map py_of_scenario example_forms, llm_removed_count = 0,
             console = []\<rparr>"
  let ?e = "\<lparr>json_features = Some [], other_keys = [(''title'', PStr ''login'')]\<rparr>"
  have fne: "example_forms \<noteq> []"
    by (simp add: example_forms_def)
  have cos: "remove_duplicates_cosine_90 example_forms example_forms_sim (9 / 10) = Inr [example_forms ! 0]"
    by code_simp
  from strategy_shapes [where F = example_forms and sim = example_forms_sim and t = "9 / 10"
      and kept = "[example_forms ! 0]"] cos
  have sub: "set [example_forms ! 0] \<subseteq> set example_forms"
    by blast
  have run: "clean_duplicates_with_llm keeping_service example_forms_json 50 =
     Inr (example_forms_json, ?st)"
    by code_simp
  have ne: "json_features example_forms_json \<noteq> None \<and> json_features example_forms_json \<noteq> Some []"
    by (simp add: example_forms_json_def example_forms_def)
  from strategy_shapes [where sv = keeping_service and d = example_forms_json and batch_size = 50
      and res = example_forms_json and st = ?st] run ne
  have a: "py_of_bdd_json example_forms_json = PDict [(''features'', PList (map py_of_scenario example_forms))]"
    by simp
  have run2: "clean_duplicates_with_llm keeping_service ?e 50 = Inr (?e, init_llm_state)"
    by code_simp
  have "json_features ?e = None \<or> json_features ?e = Some []" by simp
  with strategy_shapes [where sv = keeping_service and d = ?e and batch_size = 50 and res = ?e
      and st = init_llm_state] run2
  have "?e = ?e" by blast
  with fne cos sub run a run2 show ?thesis by blast
qed

end
